theory Spec2Isabelle
  imports Complex_Main "HOL-Library.Multiset"
begin

section \<open>Values and exceptions\<close>

text \<open>
  The program is a single Python script, \<^verbatim>\<open>src/app.py\<close>. What the HTTP layer hands to it
  is decoded JSON, so the values that flow through the pipeline are modelled as a JSON
  datatype. Python's \<^verbatim>\<open>float\<close> is idealised as \<open>real\<close>: rounding, infinities and NaN are
  outside this model; the range of the reading, where overflow decides, is stated on a
  second model of \<^verbatim>\<open>compute_rsi\<close> that has them. Python's unbounded \<^verbatim>\<open>int\<close> is \<open>int\<close>.
\<close>

datatype json =
    JNull
  | JBool bool
  | JNum real
  | JStr string
  | JArr "json list"
  | JObj "(string \<times> json) list"

text \<open>
  The exceptions the modelled code can raise. \<open>HTTPError\<close> carries the status code of the
  response attached to it (\<^verbatim>\<open>e.response.status_code\<close>), or \<open>None\<close> when no response is
  attached (\<^verbatim>\<open>e.response is None\<close>).
\<close>

datatype exn =
    HTTPError "nat option"
  | RequestException
  | JSONDecodeError
  | TypeError
  | IndexError
  | KeyError
  | AttributeError
  | ZeroDivisionError

text \<open>Python list indexing: a negative index counts from the end, out of range raises.\<close>

definition py_index :: "'a list \<Rightarrow> int \<Rightarrow> exn + 'a" where
  "py_index xs i =
     (if 0 \<le> i \<and> i < int (length xs) then Inr (xs ! nat i)
      else if i < 0 \<and> - int (length xs) \<le> i then Inr (xs ! nat (int (length xs) + i))
      else Inl IndexError)"

text \<open>
  Python arithmetic on decoded JSON: numbers subtract, booleans are the integers 0 and 1,
  anything else raises \<^verbatim>\<open>TypeError\<close>.
\<close>

fun as_number :: "json \<Rightarrow> real option" where
  "as_number (JNum x) = Some x"
| "as_number (JBool b) = Some (if b then 1 else 0)"
| "as_number JNull = None"
| "as_number (JStr s) = None"
| "as_number (JArr xs) = None"
| "as_number (JObj kvs) = None"

definition py_sub :: "json \<Rightarrow> json \<Rightarrow> exn + real" where
  "py_sub a b =
     (case as_number a of
        None \<Rightarrow> Inl TypeError
      | Some x \<Rightarrow> (case as_number b of None \<Rightarrow> Inl TypeError | Some y \<Rightarrow> Inr (x - y)))"

text \<open>
  Truth value and iteration of a decoded JSON value, as \<^verbatim>\<open>not x\<close>, \<^verbatim>\<open>for row in x\<close>,
  \<^verbatim>\<open>list.extend(x)\<close> and \<^verbatim>\<open>len(x)\<close> see it: a dict iterates over its keys, a string over its
  characters, and \<^verbatim>\<open>None\<close>, booleans and numbers are not iterable.
\<close>

fun py_falsy :: "json \<Rightarrow> bool" where
  "py_falsy JNull = True"
| "py_falsy (JBool b) = (\<not> b)"
| "py_falsy (JNum x) = (x = 0)"
| "py_falsy (JStr s) = (s = [])"
| "py_falsy (JArr xs) = (xs = [])"
| "py_falsy (JObj kvs) = (kvs = [])"

fun py_iter :: "json \<Rightarrow> exn + json list" where
  "py_iter (JArr xs) = Inr xs"
| "py_iter (JObj kvs) = Inr (map (\<lambda>kv. JStr (fst kv)) kvs)"
| "py_iter (JStr s) = Inr (map (\<lambda>c. JStr [c]) s)"
| "py_iter JNull = Inl TypeError"
| "py_iter (JBool b) = Inl TypeError"
| "py_iter (JNum x) = Inl TypeError"

text \<open>
  \<^verbatim>\<open>d.get(key, default)\<close>: only a dict has the method. The pairs of \<open>JObj\<close> are the items
  of the decoded dict, whose keys are distinct.
\<close>

definition dict_get :: "json \<Rightarrow> string \<Rightarrow> json \<Rightarrow> exn + json" where
  "dict_get d k dflt =
     (case d of
        JObj kvs \<Rightarrow> Inr (case map_of kvs k of None \<Rightarrow> dflt | Some v \<Rightarrow> v)
      | _ \<Rightarrow> Inl AttributeError)"

text \<open>\<^verbatim>\<open>s.upper()\<close>, on ASCII letters; only a string has the method.\<close>

definition upper_char :: "char \<Rightarrow> char" where
  "upper_char c =
     (let n = (of_char c :: nat) in if 97 \<le> n \<and> n \<le> 122 then char_of (n - 32) else c)"

definition py_upper :: "json \<Rightarrow> exn + string" where
  "py_upper j = (case j of JStr s \<Rightarrow> Inr (map upper_char s) | _ \<Rightarrow> Inl AttributeError)"

text \<open>
  \<^verbatim>\<open>xs[:n]\<close>: the first \<open>n\<close> elements, or all but the last \<open>-n\<close> when \<open>n\<close> is negative.
\<close>

definition py_slice_to :: "'a list \<Rightarrow> int \<Rightarrow> 'a list" where
  "py_slice_to xs n = (if 0 \<le> n then take (nat n) xs else take (nat (int (length xs) + n)) xs)"

text \<open>
  \<^verbatim>\<open>round(x, 2)\<close> on a float: the nearest multiple of 1/100, a tie going to the even one.
\<close>

definition round_half_even :: "real \<Rightarrow> int" where
  "round_half_even y =
     (let f = \<lfloor>y\<rfloor>; d = y - of_int f
      in if d < 1 / 2 then f else if 1 / 2 < d then f + 1 else if even f then f else f + 1)"

definition py_round2 :: "real \<Rightarrow> real" where
  "py_round2 x = of_int (round_half_even (x * 100)) / 100"

section \<open>The network\<close>

text \<open>
  The script talks to CoinGecko through \<^verbatim>\<open>requests\<close>. A request is identified by what the
  code puts into it: the page size and page number of a markets request (lines 54 to 61),
  the coin and the window of an OHLC request (lines 75 and 76).
\<close>

datatype request =
    MarketsRequest int int
  | OhlcRequest json int

text \<open>
  What one GET comes to: \<^verbatim>\<open>requests.get\<close> raises (no connection, timeout), or a response
  arrives with a status code and a body, \<open>None\<close> when the body is not JSON.
\<close>

datatype http_outcome =
    Raised exn
  | Response nat "json option"

text \<open>
  The world the code runs in: \<open>net w k req\<close> is the outcome of request \<open>req\<close> when \<open>k\<close>
  requests went out before it; \<open>sent\<close> logs the requests in order and \<open>slept\<close> the
  arguments of the calls of \<^verbatim>\<open>time.sleep\<close>.
\<close>

record world =
  net :: "nat \<Rightarrow> request \<Rightarrow> http_outcome"
  sent :: "request list"
  slept :: "nat list"

definition http_get :: "request \<Rightarrow> world \<Rightarrow> http_outcome \<times> world" where
  "http_get req w = (net w (length (sent w)) req, w\<lparr>sent := sent w @ [req]\<rparr>)"

definition sleep :: "nat \<Rightarrow> world \<Rightarrow> world" where
  "sleep s w = w\<lparr>slept := slept w @ [s]\<rparr>"

text \<open>
  \<^verbatim>\<open>r.raise_for_status()\<close> followed by \<^verbatim>\<open>r.json()\<close> (lines 63 and 64, 78 and 79):
  \<^verbatim>\<open>raise_for_status\<close> raises \<^verbatim>\<open>HTTPError\<close> for a status from 400 to 599, and
  \<^verbatim>\<open>json\<close> raises when the body does not decode.
\<close>

definition response_json :: "http_outcome \<Rightarrow> exn + json" where
  "response_json r =
     (case r of
        Raised e \<Rightarrow> Inl e
      | Response st body \<Rightarrow>
          if 400 \<le> st \<and> st < 600 then Inl (HTTPError (Some st))
          else (case body of None \<Rightarrow> Inl JSONDecodeError | Some j \<Rightarrow> Inr j))"

section \<open>The ranked assets: \<^verbatim>\<open>fetch_top_coins\<close>\<close>

text \<open>
  The \<^verbatim>\<open>while\<close> loop of lines 52 to 70. Both \<^verbatim>\<open>break\<close>s and the end of the loop return
  the accumulated list; an exception leaves the function. The function is the body that
  \<^verbatim>\<open>st.cache_data\<close> runs when it holds no fresh entry for the arguments.
\<close>

lemma py_iter_nonempty: "\<not> py_falsy b \<Longrightarrow> py_iter b = Inr rows \<Longrightarrow> rows \<noteq> []"
  by (cases b) auto

function top_coins_loop ::
  "int \<Rightarrow> int \<Rightarrow> json list \<Rightarrow> int \<Rightarrow> world \<Rightarrow> (exn + json list) \<times> world" where
  "top_coins_loop n pp results pg w =
     (if int (length results) < n then
        (case http_get (MarketsRequest pp pg) w of
           (r, w1) \<Rightarrow>
             (case response_json r of
                Inl e \<Rightarrow> (Inl e, w1)
              | Inr batch \<Rightarrow>
                  if py_falsy batch then (Inr results, w1)
                  else
                    (case py_iter batch of
                       Inl e \<Rightarrow> (Inl e, w1)
                     | Inr rows \<Rightarrow>
                         if int (length rows) < pp then (Inr (results @ rows), w1)
                         else top_coins_loop n pp (results @ rows) (pg + 1) w1)))
      else (Inr results, w))"
  by pat_completeness auto
termination
  by (relation "measure (\<lambda>(n, pp, results, pg, w). nat (n - int (length results)))")
    (auto dest: py_iter_nonempty)

declare top_coins_loop.simps [simp del]

definition fetch_top_coins :: "int \<Rightarrow> world \<Rightarrow> (exn + json list) \<times> world" where
  "fetch_top_coins n w =
     (case top_coins_loop n (min 250 n) [] 1 w of
        (Inl e, w1) \<Rightarrow> (Inl e, w1)
      | (Inr results, w1) \<Rightarrow> (Inr (py_slice_to results n), w1))"

section \<open>The candles: \<^verbatim>\<open>fetch_ohlc\<close> and \<^verbatim>\<open>closes_from_ohlc\<close>\<close>

text \<open>\<^verbatim>\<open>_fetch_ohlc_once\<close>, lines 74 to 79.\<close>

definition fetch_ohlc_once :: "json \<Rightarrow> int \<Rightarrow> world \<Rightarrow> (exn + json) \<times> world" where
  "fetch_ohlc_once coin_id dys w =
     (case http_get (OhlcRequest coin_id dys) w of (r, w1) \<Rightarrow> (response_json r, w1))"

text \<open>
  \<^verbatim>\<open>fetch_ohlc\<close>, lines 83 to 91: only an \<^verbatim>\<open>HTTPError\<close> whose response has status 429 is
  answered, by \<^verbatim>\<open>time.sleep(5)\<close> and a second call outside the \<^verbatim>\<open>try\<close>; any other
  exception goes on to the caller. As for \<^verbatim>\<open>fetch_top_coins\<close>, this is the body that the
  cache decorator runs.
\<close>

definition fetch_ohlc :: "json \<Rightarrow> int \<Rightarrow> world \<Rightarrow> (exn + json) \<times> world" where
  "fetch_ohlc coin_id dys w =
     (case fetch_ohlc_once coin_id dys w of
        (Inr ohlc, w1) \<Rightarrow> (Inr ohlc, w1)
      | (Inl (HTTPError resp), w1) \<Rightarrow>
          if resp = Some 429 then fetch_ohlc_once coin_id dys (sleep 5 w1)
          else (Inl (HTTPError resp), w1)
      | (Inl e, w1) \<Rightarrow> (Inl e, w1))"

text \<open>
  The comprehension of line 95 over the rows: a row is kept when
  \<^verbatim>\<open>isinstance(row, list) and len(row) >= 5\<close>, and contributes \<^verbatim>\<open>row[4]\<close>.
\<close>

fun closes_of_rows :: "json list \<Rightarrow> exn + json list" where
  "closes_of_rows [] = Inr []"
| "closes_of_rows (JArr cells # rows) =
     (if 5 \<le> length cells then
        (case py_index cells 4 of
           Inl e \<Rightarrow> Inl e
         | Inr c \<Rightarrow> (case closes_of_rows rows of Inl e \<Rightarrow> Inl e | Inr cs \<Rightarrow> Inr (c # cs)))
      else closes_of_rows rows)"
| "closes_of_rows (row # rows) = closes_of_rows rows"

definition closes_from_ohlc :: "json \<Rightarrow> exn + json list" where
  "closes_from_ohlc ohlc =
     (case py_iter ohlc of Inl e \<Rightarrow> Inl e | Inr rows \<Rightarrow> closes_of_rows rows)"

section \<open>The indicator: \<^verbatim>\<open>compute_rsi\<close>\<close>

text \<open>\<^verbatim>\<open>change = closes[i] - closes[i - 1]\<close> (lines 104 and 110).\<close>

definition change_at :: "json list \<Rightarrow> int \<Rightarrow> exn + real" where
  "change_at closes i =
     (case py_index closes i of
        Inl e \<Rightarrow> Inl e
      | Inr a \<Rightarrow> (case py_index closes (i - 1) of Inl e \<Rightarrow> Inl e | Inr b \<Rightarrow> py_sub a b))"

text \<open>
  The seeding loop, lines 101 to 106: for each index of \<^verbatim>\<open>range(1, period + 1)\<close> the gain
  \<^verbatim>\<open>max(change, 0.0)\<close> and the loss \<^verbatim>\<open>abs(min(change, 0.0))\<close> are appended to two lists.
\<close>

fun seed_loop :: "json list \<Rightarrow> int list \<Rightarrow> real list \<Rightarrow> real list \<Rightarrow> exn + (real list \<times> real list)" where
  "seed_loop closes [] gains losses = Inr (gains, losses)"
| "seed_loop closes (i # is) gains losses =
     (case change_at closes i of
        Inl e \<Rightarrow> Inl e
      | Inr change \<Rightarrow>
          seed_loop closes is (gains @ [max change 0]) (losses @ [\<bar>min change 0\<bar>]))"

text \<open>The smoothing loop, lines 109 to 114, over \<^verbatim>\<open>range(period + 1, len(closes))\<close>.\<close>

fun smooth_loop :: "json list \<Rightarrow> int \<Rightarrow> int list \<Rightarrow> real \<Rightarrow> real \<Rightarrow> exn + (real \<times> real)" where
  "smooth_loop closes period [] avg_gain avg_loss = Inr (avg_gain, avg_loss)"
| "smooth_loop closes period (i # is) avg_gain avg_loss =
     (case change_at closes i of
        Inl e \<Rightarrow> Inl e
      | Inr change \<Rightarrow>
          (let gain = max change 0;
               loss = \<bar>min change 0\<bar>
           in smooth_loop closes period is
                ((avg_gain * (real_of_int period - 1) + gain) / real_of_int period)
                ((avg_loss * (real_of_int period - 1) + loss) / real_of_int period)))"

text \<open>
  Lines 101 to 114 as a whole: the pair \<^verbatim>\<open>(avg_gain, avg_loss)\<close> as it stands when the
  second loop ends. The division by \<^verbatim>\<open>period\<close> on lines 107 and 108 raises for period 0.
\<close>

definition rsi_averages :: "json list \<Rightarrow> int \<Rightarrow> exn + (real \<times> real)" where
  "rsi_averages closes period =
     (case seed_loop closes [1..period] [] [] of
        Inl e \<Rightarrow> Inl e
      | Inr (gains, losses) \<Rightarrow>
          if period = 0 then Inl ZeroDivisionError
          else smooth_loop closes period [period + 1..int (length closes) - 1]
                 (sum_list gains / real_of_int period)
                 (sum_list losses / real_of_int period))"

text \<open>
  \<^verbatim>\<open>compute_rsi\<close>, lines 98 to 118. \<open>Inr None\<close> is Python's \<^verbatim>\<open>None\<close> (too little
  history), \<open>Inr (Some v)\<close> a reading, \<open>Inl e\<close> a raised exception. The float division
  \<^verbatim>\<open>100.0 / (1.0 + rs)\<close> raises when its divisor is zero.
\<close>

definition compute_rsi :: "json list \<Rightarrow> int \<Rightarrow> exn + real option" where
  "compute_rsi closes period =
     (if int (length closes) < period + 1 then Inr None
      else
        (case rsi_averages closes period of
           Inl e \<Rightarrow> Inl e
         | Inr (avg_gain, avg_loss) \<Rightarrow>
             if \<bar>avg_loss\<bar> < 1 / 10 ^ 12 then Inr (Some 100)
             else
               (let rs = avg_gain / avg_loss
                in if 1 + rs = 0 then Inl ZeroDivisionError
                   else Inr (Some (100 - 100 / (1 + rs))))))"

text \<open>
  The same algorithm as section 4.2 of the specification words it, on a series of numbers:
  the gains \<open>max (close\<^sub>i - close\<^sub>i\<^sub>-\<^sub>1) 0\<close> and the losses \<open>max (close\<^sub>i\<^sub>-\<^sub>1 - close\<^sub>i) 0\<close> of
  the consecutive deltas, the mean of the first \<open>period\<close> of them as the seed, and one
  update \<open>(avg * (period - 1) + v) / period\<close> for each later delta, in order.
\<close>

definition wilder_gains :: "real list \<Rightarrow> real list" where
  "wilder_gains xs = map (\<lambda>(prev, cur). max (cur - prev) 0) (zip xs (tl xs))"

definition wilder_losses :: "real list \<Rightarrow> real list" where
  "wilder_losses xs = map (\<lambda>(prev, cur). max (prev - cur) 0) (zip xs (tl xs))"

definition mean_list :: "real list \<Rightarrow> real" where
  "mean_list vs = sum_list vs / real (length vs)"

definition wilder_update :: "int \<Rightarrow> real \<Rightarrow> real \<Rightarrow> real" where
  "wilder_update period avg v = (avg * (real_of_int period - 1) + v) / real_of_int period"

definition wilder_average :: "int \<Rightarrow> real list \<Rightarrow> real" where
  "wilder_average period vs =
     foldl (wilder_update period) (mean_list (take (nat period) vs)) (drop (nat period) vs)"

text \<open>
  A candle row as the specification's data model has it (section 3, \<open>Candle\<close>, and
  section 6): an array \<^verbatim>\<open>[timestamp, open, high, low, close]\<close> of five numbers.
\<close>

fun parsable_candle :: "json \<Rightarrow> bool" where
  "parsable_candle (JArr [JNum t, JNum op, JNum hi, JNum lo, JNum cl]) = True"
| "parsable_candle row = False"

section \<open>Alerts\<close>

text \<open>
  The test of line 159, \<^verbatim>\<open>rsi is not None and (rsi <= low_th or rsi >= high_th)\<close>.
\<close>

definition alert_due :: "real option \<Rightarrow> real \<Rightarrow> real \<Rightarrow> bool" where
  "alert_due rsi low high = (case rsi of None \<Rightarrow> False | Some v \<Rightarrow> v \<le> low \<or> high \<le> v)"




section \<open>The cycle\<close>

record table_row =
  row_name :: json
  row_symbol :: string
  row_price :: json
  row_rsi :: "real option"

type_synonym alert = "json \<times> string \<times> real \<times> json"

text \<open>
  The \<^verbatim>\<open>try\<close> block of lines 145 to 150: whatever \<^verbatim>\<open>fetch_ohlc\<close>, \<^verbatim>\<open>closes_from_ohlc\<close>
  or \<^verbatim>\<open>compute_rsi\<close> raises is caught and leaves \<^verbatim>\<open>rsi = None\<close>. The fetcher is a
  parameter, over any state: the loop calls the cached \<^verbatim>\<open>fetch_ohlc\<close>, which answers from
  the cache or runs the body modelled above.
\<close>

definition coin_rsi ::
  "(json \<Rightarrow> int \<Rightarrow> 'w \<Rightarrow> (exn + json) \<times> 'w) \<Rightarrow> int \<Rightarrow> json \<Rightarrow> 'w \<Rightarrow> real option \<times> 'w" where
  "coin_rsi fetch period coin_id w =
     (case fetch coin_id 1 w of
        (Inl e, w1) \<Rightarrow> (None, w1)
      | (Inr ohlc, w1) \<Rightarrow>
          (case closes_from_ohlc ohlc of
             Inl e \<Rightarrow> (None, w1)
           | Inr closes \<Rightarrow>
               (case compute_rsi closes period of
                  Inl e \<Rightarrow> (None, w1)
                | Inr rsi \<Rightarrow> (rsi, w1))))"

text \<open>
  One turn of the loop, lines 140 to 160, up to the row and the alert it appends. The four
  reads of the coin stand outside the \<^verbatim>\<open>try\<close>: what they raise ends the cycle.
\<close>

definition process_coin ::
  "(json \<Rightarrow> int \<Rightarrow> 'w \<Rightarrow> (exn + json) \<times> 'w) \<Rightarrow> int \<Rightarrow> real \<Rightarrow> real \<Rightarrow> json \<Rightarrow> 'w
     \<Rightarrow> (exn + (table_row \<times> alert list)) \<times> 'w" where
  "process_coin fetch period low high coin w =
     (case dict_get coin ''id'' JNull of
        Inl e \<Rightarrow> (Inl e, w)
      | Inr coin_id \<Rightarrow>
     (case dict_get coin ''name'' coin_id of
        Inl e \<Rightarrow> (Inl e, w)
      | Inr name \<Rightarrow>
     (case dict_get coin ''symbol'' (JStr []) of
        Inl e \<Rightarrow> (Inl e, w)
      | Inr raw_symbol \<Rightarrow>
     (case py_upper raw_symbol of
        Inl e \<Rightarrow> (Inl e, w)
      | Inr symbol \<Rightarrow>
     (case dict_get coin ''current_price'' JNull of
        Inl e \<Rightarrow> (Inl e, w)
      | Inr price \<Rightarrow>
     (case coin_rsi fetch period coin_id w of
        (rsi, w1) \<Rightarrow>
          (Inr (\<lparr>row_name = name, row_symbol = symbol, row_price = price,
                  row_rsi = map_option py_round2 rsi\<rparr>,
                (case rsi of
                   None \<Rightarrow> []
                 | Some v \<Rightarrow> if alert_due rsi low high then [(name, symbol, v, price)] else [])),
           w1)))))))"

text \<open>The loop of lines 139 to 160 over the coins, appending to \<^verbatim>\<open>rows\<close> and \<^verbatim>\<open>alerts\<close>.\<close>

fun main_loop ::
  "(json \<Rightarrow> int \<Rightarrow> 'w \<Rightarrow> (exn + json) \<times> 'w) \<Rightarrow> int \<Rightarrow> real \<Rightarrow> real \<Rightarrow> json list
     \<Rightarrow> table_row list \<Rightarrow> alert list \<Rightarrow> 'w \<Rightarrow> (exn + (table_row list \<times> alert list)) \<times> 'w" where
  "main_loop fetch period low high [] rows alerts w = (Inr (rows, alerts), w)"
| "main_loop fetch period low high (coin # coins) rows alerts w =
     (case process_coin fetch period low high coin w of
        (Inl e, w1) \<Rightarrow> (Inl e, w1)
      | (Inr (row, new_alerts), w1) \<Rightarrow>
          main_loop fetch period low high coins (rows @ [row]) (alerts @ new_alerts) w1)"

text \<open>
  Line 162, \<^verbatim>\<open>pd.DataFrame(rows).sort_values(by=["RSI"], ascending=True, na_position="last")\<close>,
  as pandas documents it: the rows with a value in ascending order of the value, then
  the rows without one. A frame built from no rows has no column \<^verbatim>\<open>RSI\<close>, and sorting by
  a missing column raises \<^verbatim>\<open>KeyError\<close>. Which of two rows with the same value comes first
  pandas leaves open; here they keep their order.
\<close>

definition valued_rows :: "table_row list \<Rightarrow> (real \<times> table_row) list" where
  "valued_rows rows =
     concat (map (\<lambda>r. case row_rsi r of None \<Rightarrow> [] | Some v \<Rightarrow> [(v, r)]) rows)"

definition sort_values_rsi :: "table_row list \<Rightarrow> exn + table_row list" where
  "sort_values_rsi rows =
     (if rows = [] then Inl KeyError
      else Inr (map snd (sort_key fst (valued_rows rows))
                @ filter (\<lambda>r. row_rsi r = None) rows))"

text \<open>Lines 139 to 162: the rows and alerts of the coins, and the sorted frame.\<close>

definition build_report ::
  "(json \<Rightarrow> int \<Rightarrow> 'w \<Rightarrow> (exn + json) \<times> 'w) \<Rightarrow> int \<Rightarrow> real \<Rightarrow> real \<Rightarrow> json list \<Rightarrow> 'w
     \<Rightarrow> (exn + (table_row list \<times> alert list)) \<times> 'w" where
  "build_report fetch period low high coins w =
     (case main_loop fetch period low high coins [] [] w of
        (Inl e, w1) \<Rightarrow> (Inl e, w1)
      | (Inr (rows, alerts), w1) \<Rightarrow>
          (case sort_values_rsi rows of
             Inl e \<Rightarrow> (Inl e, w1)
           | Inr df \<Rightarrow> (Inr (df, alerts), w1)))"

text \<open>
  Lines 133 to 162 with both fetchers on a cold cache: the ranked coins, then the report.
  An exception of \<^verbatim>\<open>fetch_top_coins\<close> on line 134 is not caught.
\<close>

definition run_cycle ::
  "int \<Rightarrow> int \<Rightarrow> real \<Rightarrow> real \<Rightarrow> world \<Rightarrow> (exn + (table_row list \<times> alert list)) \<times> world" where
  "run_cycle n period low high w =
     (case fetch_top_coins n w of
        (Inl e, w1) \<Rightarrow> (Inl e, w1)
      | (Inr coins, w1) \<Rightarrow> build_report fetch_ohlc period low high coins w1)"

section \<open>The indicator on the range of binary64\<close>

text \<open>
  The reals above have no largest number, a Python \<^verbatim>\<open>float\<close> has: an operation whose exact
  result is \<open>2^1024 - 2^970\<close> or more in magnitude gives an infinity, and infinities
  combine to NaN. For the range of the reading this matters, so \<^verbatim>\<open>compute_rsi\<close> is
  modelled a second time, line by line as before, on values that are a finite number, an
  infinity or NaN. Rounding inside the range stays idealised, and so does the sign of
  zero.
\<close>

datatype f64 = Fin real | PInf | NInf | NaN

definition f64_limit :: real where
  "f64_limit = 2 ^ 1024 - 2 ^ 970"

definition f64_of_real :: "real \<Rightarrow> f64" where
  "f64_of_real x = (if f64_limit \<le> x then PInf else if x \<le> - f64_limit then NInf else Fin x)"

text \<open>IEEE arithmetic on these values, as Python's \<^verbatim>\<open>float\<close> operators perform it.\<close>

fun f64_neg :: "f64 \<Rightarrow> f64" where
  "f64_neg (Fin a) = Fin (- a)"
| "f64_neg PInf = NInf"
| "f64_neg NInf = PInf"
| "f64_neg NaN = NaN"

fun f64_add :: "f64 \<Rightarrow> f64 \<Rightarrow> f64" where
  "f64_add (Fin a) (Fin b) = f64_of_real (a + b)"
| "f64_add NaN y = NaN"
| "f64_add x NaN = NaN"
| "f64_add PInf NInf = NaN"
| "f64_add NInf PInf = NaN"
| "f64_add PInf y = PInf"
| "f64_add x PInf = PInf"
| "f64_add NInf y = NInf"
| "f64_add x NInf = NInf"

definition f64_sub :: "f64 \<Rightarrow> f64 \<Rightarrow> f64" where
  "f64_sub x y = f64_add x (f64_neg y)"

fun f64_mul :: "f64 \<Rightarrow> f64 \<Rightarrow> f64" where
  "f64_mul (Fin a) (Fin b) = f64_of_real (a * b)"
| "f64_mul NaN y = NaN"
| "f64_mul x NaN = NaN"
| "f64_mul (Fin a) PInf = (if a = 0 then NaN else if 0 < a then PInf else NInf)"
| "f64_mul (Fin a) NInf = (if a = 0 then NaN else if 0 < a then NInf else PInf)"
| "f64_mul PInf (Fin b) = (if b = 0 then NaN else if 0 < b then PInf else NInf)"
| "f64_mul NInf (Fin b) = (if b = 0 then NaN else if 0 < b then NInf else PInf)"
| "f64_mul PInf PInf = PInf"
| "f64_mul NInf NInf = PInf"
| "f64_mul PInf NInf = NInf"
| "f64_mul NInf PInf = NInf"

text \<open>Python's \<^verbatim>\<open>/\<close> raises for a divisor that is zero, whatever the dividend.\<close>

fun f64_div :: "f64 \<Rightarrow> f64 \<Rightarrow> exn + f64" where
  "f64_div x (Fin b) =
     (if b = 0 then Inl ZeroDivisionError
      else Inr (case x of
                  Fin a \<Rightarrow> f64_of_real (a / b)
                | PInf \<Rightarrow> if 0 < b then PInf else NInf
                | NInf \<Rightarrow> if 0 < b then NInf else PInf
                | NaN \<Rightarrow> NaN))"
| "f64_div NaN y = Inr NaN"
| "f64_div x NaN = Inr NaN"
| "f64_div (Fin a) y = Inr (Fin 0)"
| "f64_div x y = Inr NaN"

text \<open>The comparison \<^verbatim>\<open><\<close>: false whenever a side is NaN.\<close>

fun f64_less :: "f64 \<Rightarrow> f64 \<Rightarrow> bool" where
  "f64_less (Fin a) (Fin b) = (a < b)"
| "f64_less NaN y = False"
| "f64_less x NaN = False"
| "f64_less NInf (Fin b) = True"
| "f64_less NInf PInf = True"
| "f64_less (Fin a) PInf = True"
| "f64_less x y = False"

fun f64_abs :: "f64 \<Rightarrow> f64" where
  "f64_abs (Fin a) = Fin \<bar>a\<bar>"
| "f64_abs PInf = PInf"
| "f64_abs NInf = PInf"
| "f64_abs NaN = NaN"

text \<open>
  \<^verbatim>\<open>max(change, 0.0)\<close> and \<^verbatim>\<open>min(change, 0.0)\<close>: the second argument replaces the first
  only when it compares greater, respectively less, so a NaN change stays.
\<close>

definition py_max0 :: "f64 \<Rightarrow> f64" where
  "py_max0 change = (if f64_less change (Fin 0) then Fin 0 else change)"

definition py_min0 :: "f64 \<Rightarrow> f64" where
  "py_min0 change = (if f64_less (Fin 0) change then Fin 0 else change)"

text \<open>Lines 104 and 110; lines 101 to 106; the update of lines 113 and 114; lines 109 to 114.\<close>

definition change_at_f64 :: "f64 list \<Rightarrow> int \<Rightarrow> exn + f64" where
  "change_at_f64 closes i =
     (case py_index closes i of
        Inl e \<Rightarrow> Inl e
      | Inr a \<Rightarrow> (case py_index closes (i - 1) of Inl e \<Rightarrow> Inl e | Inr b \<Rightarrow> Inr (f64_sub a b)))"

fun seed_loop_f64 :: "f64 list \<Rightarrow> int list \<Rightarrow> f64 list \<Rightarrow> f64 list \<Rightarrow> exn + (f64 list \<times> f64 list)" where
  "seed_loop_f64 closes [] gains losses = Inr (gains, losses)"
| "seed_loop_f64 closes (i # is) gains losses =
     (case change_at_f64 closes i of
        Inl e \<Rightarrow> Inl e
      | Inr change \<Rightarrow>
          seed_loop_f64 closes is (gains @ [py_max0 change]) (losses @ [f64_abs (py_min0 change)]))"

definition wilder_step_f64 :: "int \<Rightarrow> f64 \<Rightarrow> f64 \<Rightarrow> exn + f64" where
  "wilder_step_f64 period avg v =
     f64_div (f64_add (f64_mul avg (Fin (real_of_int (period - 1)))) v) (Fin (real_of_int period))"

fun smooth_loop_f64 :: "f64 list \<Rightarrow> int \<Rightarrow> int list \<Rightarrow> f64 \<Rightarrow> f64 \<Rightarrow> exn + (f64 \<times> f64)" where
  "smooth_loop_f64 closes period [] avg_gain avg_loss = Inr (avg_gain, avg_loss)"
| "smooth_loop_f64 closes period (i # is) avg_gain avg_loss =
     (case change_at_f64 closes i of
        Inl e \<Rightarrow> Inl e
      | Inr change \<Rightarrow>
          (case wilder_step_f64 period avg_gain (py_max0 change) of
             Inl e \<Rightarrow> Inl e
           | Inr new_gain \<Rightarrow>
               (case wilder_step_f64 period avg_loss (f64_abs (py_min0 change)) of
                  Inl e \<Rightarrow> Inl e
                | Inr new_loss \<Rightarrow> smooth_loop_f64 closes period is new_gain new_loss)))"

text \<open>
  Lines 101 to 114: \<^verbatim>\<open>sum\<close> adds from 0 on, and the divisions of lines 107 and 108 raise
  for period 0.
\<close>

definition rsi_averages_f64 :: "f64 list \<Rightarrow> int \<Rightarrow> exn + (f64 \<times> f64)" where
  "rsi_averages_f64 closes period =
     (case seed_loop_f64 closes [1..period] [] [] of
        Inl e \<Rightarrow> Inl e
      | Inr (gains, losses) \<Rightarrow>
          (case f64_div (foldl f64_add (Fin 0) gains) (Fin (real_of_int period)) of
             Inl e \<Rightarrow> Inl e
           | Inr avg_gain \<Rightarrow>
               (case f64_div (foldl f64_add (Fin 0) losses) (Fin (real_of_int period)) of
                  Inl e \<Rightarrow> Inl e
                | Inr avg_loss \<Rightarrow>
                    smooth_loop_f64 closes period [period + 1..int (length closes) - 1]
                      avg_gain avg_loss)))"

text \<open>Lines 115 to 118, from the final averages to the reading.\<close>

definition rsi_of_averages_f64 :: "f64 \<Rightarrow> f64 \<Rightarrow> exn + f64" where
  "rsi_of_averages_f64 avg_gain avg_loss =
     (if f64_less (f64_abs avg_loss) (Fin (1 / 10 ^ 12)) then Inr (Fin 100)
      else
        (case f64_div avg_gain avg_loss of
           Inl e \<Rightarrow> Inl e
         | Inr rs \<Rightarrow>
             (case f64_div (Fin 100) (f64_add (Fin 1) rs) of
                Inl e \<Rightarrow> Inl e
              | Inr q \<Rightarrow> Inr (f64_sub (Fin 100) q))))"

text \<open>\<^verbatim>\<open>compute_rsi\<close>, lines 98 to 118.\<close>

definition compute_rsi_f64 :: "f64 list \<Rightarrow> int \<Rightarrow> exn + f64 option" where
  "compute_rsi_f64 closes period =
     (if int (length closes) < period + 1 then Inr None
      else
        (case rsi_averages_f64 closes period of
           Inl e \<Rightarrow> Inl e
         | Inr (avg_gain, avg_loss) \<Rightarrow>
             (case rsi_of_averages_f64 avg_gain avg_loss of
                Inl e \<Rightarrow> Inl e
              | Inr r \<Rightarrow> Inr (Some r))))"

text \<open>A value that is a finite number not below zero, or plus infinity.\<close>

fun nonneg64 :: "f64 \<Rightarrow> bool" where
  "nonneg64 (Fin a) = (0 \<le> a)"
| "nonneg64 PInf = True"
| "nonneg64 NInf = False"
| "nonneg64 NaN = False"

section \<open>Worlds for the examples\<close>

text \<open>A network that answers the first request with status 429 and every later one with an empty array.\<close>

definition rate_limited_once :: world where
  "rate_limited_once =
     \<lparr>net = (\<lambda>k req. if k = 0 then Response 429 None else Response 200 (Some (JArr []))),
      sent = [], slept = []\<rparr>"

section \<open>Notions used to state the properties\<close>

text \<open>The order of the report: readings ascending, a missing reading after every reading.\<close>

fun rsi_le :: "real option \<Rightarrow> real option \<Rightarrow> bool" where
  "rsi_le (Some a) (Some b) = (a \<le> b)"
| "rsi_le None (Some b) = False"
| "rsi_le x None = True"

text \<open>
  An asset of the ranked list as the loop needs it (section 3 of the specification,
  \<open>AssetRef\<close>): a JSON object whose symbol, when present, is a string.
\<close>

fun asset_object :: "json \<Rightarrow> bool" where
  "asset_object (JObj kvs) =
     (case map_of kvs ''symbol'' of None \<Rightarrow> True | Some (JStr s) \<Rightarrow> True | Some other \<Rightarrow> False)"
| "asset_object other = False"

text \<open>The state in which the loop reaches coin number \<open>i\<close>: the one the first \<open>i\<close> coins leave.\<close>

definition world_before ::
  "(json \<Rightarrow> int \<Rightarrow> 'w \<Rightarrow> (exn + json) \<times> 'w) \<Rightarrow> int \<Rightarrow> real \<Rightarrow> real \<Rightarrow> json list \<Rightarrow> nat \<Rightarrow> 'w \<Rightarrow> 'w" where
  "world_before fetch period low high coins i w =
     snd (main_loop fetch period low high (take i coins) [] [] w)"

text \<open>
  An example cycle: three ranked coins; the candles of the first rise, the request for
  those of the second is answered with status 500, the candles of the third fall.
\<close>

definition candles :: "real list \<Rightarrow> json" where
  "candles closes = JArr (map (\<lambda>c. JArr [JNum 0, JNum c, JNum c, JNum c, JNum c]) closes)"

definition example_coins :: "json list" where
  "example_coins =
     [JObj [(''id'', JStr ''btc''), (''name'', JStr ''Bitcoin''), (''symbol'', JStr ''btc''),
            (''current_price'', JNum 100)],
      JObj [(''id'', JStr ''eth''), (''symbol'', JStr ''eth'')],
      JObj [(''id'', JStr ''doge''), (''name'', JStr ''Dogecoin'')]]"

definition example_world :: world where
  "example_world =
     \<lparr>net = (\<lambda>k req. case req of
                MarketsRequest pp pg \<Rightarrow>
                  Response 200 (Some (JArr (if pg = 1 then example_coins else [])))
              | OhlcRequest c d \<Rightarrow>
                  if c = JStr ''btc'' then Response 200 (Some (candles [1, 2, 3]))
                  else if c = JStr ''eth'' then Response 500 None
                  else Response 200 (Some (candles [3, 2, 1]))),
      sent = [], slept = []\<rparr>"

section \<open>Notions used to state the paging of \<^verbatim>\<open>fetch_top_coins\<close>\<close>

text \<open>
  The rows one decoded page adds to the results (lines 65 to 67): none when the page is
  falsy, its elements otherwise.
\<close>

definition batch_rows :: "json \<Rightarrow> exn + json list" where
  "batch_rows batch = (if py_falsy batch then Inr [] else py_iter batch)"

text \<open>What the answer to one request comes to: the rows it adds, or the exception.\<close>

definition answer_rows :: "http_outcome \<Rightarrow> exn + json list" where
  "answer_rows r = (case response_json r of Inl e \<Rightarrow> Inl e | Inr batch \<Rightarrow> batch_rows batch)"

text \<open>
  The answer to request number \<open>k\<close> of a call that starts in world \<open>w\<close> with page number
  \<open>pg\<close> and page size \<open>pp\<close>.
\<close>

definition page_answer :: "world \<Rightarrow> int \<Rightarrow> int \<Rightarrow> nat \<Rightarrow> exn + json list" where
  "page_answer w pp pg k =
     answer_rows (net w (length (sent w) + k) (MarketsRequest pp (pg + int k)))"

text \<open>
  The accumulation as section 4.1 of the specification words it, over the pages fetched:
  a page is requested only while fewer than \<open>n\<close> rows are collected, a page of fewer
  than \<open>pp\<close> rows is the last one, and after a full page the accumulation goes on.
\<close>

fun accumulates :: "int \<Rightarrow> int \<Rightarrow> nat \<Rightarrow> json list list \<Rightarrow> bool" where
  "accumulates n pp collected [] = (n \<le> int collected)"
| "accumulates n pp collected (p # ps) =
     (int collected < n
      \<and> (if int (length p) < pp then ps = [] else accumulates n pp (collected + length p) ps))"

text \<open>A network whose every answer is a page of 250 rows.\<close>

definition full_pages :: world where
  "full_pages =
     \<lparr>net = (\<lambda>k req. Response 200 (Some (JArr (replicate 250 (JNum (real k)))))),
      sent = [], slept = []\<rparr>"

section \<open>The loops of \<^verbatim>\<open>compute_rsi\<close> on a series of numbers\<close>

text \<open>
  On a list of numbers no subtraction raises, and the index loops of the code walk the
  consecutive deltas: the first loop the first \<open>period\<close> of them, the second the rest.
\<close>

lemma change_at_num:
  assumes "1 \<le> i" "i < length xs"
  shows "change_at (map JNum xs) (int i) = Inr (xs ! i - xs ! (i - 1))"
  using assms by (simp add: change_at_def py_index_def py_sub_def nat_diff_distrib)

lemma seed_loop_nums:
  assumes "\<forall>i\<in>set is. 1 \<le> i \<and> i < length xs"
  shows "seed_loop (map JNum xs) (map int is) gs ls =
     Inr (gs @ map (\<lambda>i. max (xs ! i - xs ! (i - 1)) 0) is,
          ls @ map (\<lambda>i. \<bar>min (xs ! i - xs ! (i - 1)) 0\<bar>) is)"
  using assms by (induction "is" arbitrary: gs ls) (simp_all add: change_at_num)

lemma smooth_loop_nums:
  assumes "\<forall>i\<in>set is. 1 \<le> i \<and> i < length xs"
  shows "smooth_loop (map JNum xs) p (map int is) ag al =
     Inr (foldl (wilder_update p) ag (map (\<lambda>i. max (xs ! i - xs ! (i - 1)) 0) is),
          foldl (wilder_update p) al (map (\<lambda>i. \<bar>min (xs ! i - xs ! (i - 1)) 0\<bar>) is))"
  using assms by (induction "is" arbitrary: ag al) (simp_all add: change_at_num wilder_update_def)

lemma upto_map_int: "0 \<le> a \<Longrightarrow> [a..b] = map int [nat a..<nat (b + 1)]"
proof (induction a b rule: upto.induct)
  case (1 i j)
  show ?case
  proof (cases "i \<le> j")
    case True
    then have lt: "nat i < nat (j + 1)" using 1(2) by simp
    have suc: "Suc (nat i) = nat (i + 1)" using 1(2) by simp
    have "[nat i..<nat (j + 1)] = nat i # [nat (i + 1)..<nat (j + 1)]"
      using upt_conv_Cons [OF lt] by (simp only: suc)
    moreover have "[i + 1..j] = map int [nat (i + 1)..<nat (j + 1)]"
      using 1(1) [OF True] 1(2) by simp
    ultimately show ?thesis using True 1(2) by (simp add: upto.simps [of i j])
  next
    case False
    then show ?thesis by (simp add: upto.simps [of i j])
  qed
qed

lemma wilder_gains_upt:
  "wilder_gains xs = map (\<lambda>i. max (xs ! i - xs ! (i - 1)) 0) [1..<length xs]"
  by (rule nth_equalityI) (auto simp: wilder_gains_def nth_tl)

lemma wilder_losses_upt:
  "wilder_losses xs = map (\<lambda>i. \<bar>min (xs ! i - xs ! (i - 1)) 0\<bar>) [1..<length xs]"
  by (rule nth_equalityI) (auto simp: wilder_losses_def nth_tl)

lemma rsi_averages_nums:
  assumes "1 \<le> p" and "p + 1 \<le> int (length xs)"
  shows "rsi_averages (map JNum xs) p =
           Inr (wilder_average p (wilder_gains xs), wilder_average p (wilder_losses xs))"
proof -
  define n where "n = nat p"
  have p: "p = int n" and n: "1 \<le> n" "n + 1 \<le> length xs"
    using assms by (simp_all add: n_def)
  have "nat (p + 1) = n + 1" by (simp add: p)
  then have seed_range: "[1..p] = map int [1..<n + 1]"
    using upto_map_int [of 1 p] by simp
  have "nat (int (length xs) - 1 + 1) = length xs" by simp
  then have smooth_range: "[p + 1..int (length xs) - 1] = map int [n + 1..<length xs]"
    using upto_map_int [of "p + 1" "int (length xs) - 1"] \<open>nat (p + 1) = n + 1\<close> n
    by (simp add: p)
  let ?G = "\<lambda>i. max (xs ! i - xs ! (i - 1)) 0"
  let ?L = "\<lambda>i. \<bar>min (xs ! i - xs ! (i - 1)) 0\<bar>"
  have tk: "take n (map f [1..<length xs]) = map f [1..<n + 1]" for f :: "nat \<Rightarrow> real"
    using n by (simp add: take_map take_upt del: upt_Suc)
  have dr: "drop n (map f [1..<length xs]) = map f [n + 1..<length xs]" for f :: "nat \<Rightarrow> real"
    by (simp add: drop_map drop_upt del: upt_Suc)
  have len: "length (map f [1..<n + 1]) = n" for f :: "nat \<Rightarrow> real"
    by simp
  have np: "nat p = n" by (simp add: p)
  have rp: "real n = real_of_int p" by (simp add: p)
  have seed: "seed_loop (map JNum xs) [1..p] [] [] = Inr (map ?G [1..<n + 1], map ?L [1..<n + 1])"
    unfolding seed_range using seed_loop_nums [of "[1..<n + 1]" xs "[]" "[]"] n by simp
  have smooth: "smooth_loop (map JNum xs) p [p + 1..int (length xs) - 1] a b =
      Inr (foldl (wilder_update p) a (map ?G [n + 1..<length xs]),
           foldl (wilder_update p) b (map ?L [n + 1..<length xs]))" for a b
    unfolding smooth_range using smooth_loop_nums [of "[n + 1..<length xs]" xs p a b] by simp
  have wg: "wilder_average p (wilder_gains xs) =
      foldl (wilder_update p) (sum_list (map ?G [1..<n + 1]) / real_of_int p)
        (map ?G [n + 1..<length xs])"
    unfolding wilder_average_def mean_list_def wilder_gains_upt np tk dr len rp ..
  have wl: "wilder_average p (wilder_losses xs) =
      foldl (wilder_update p) (sum_list (map ?L [1..<n + 1]) / real_of_int p)
        (map ?L [n + 1..<length xs])"
    unfolding wilder_average_def mean_list_def wilder_losses_upt np tk dr len rp ..
  have "p \<noteq> 0" using assms(1) by simp
  then show ?thesis
    unfolding rsi_averages_def seed wg wl by (simp add: smooth)
qed


lemma wilder_gains_nonneg: "v \<in> set (wilder_gains xs) \<Longrightarrow> 0 \<le> v"
  by (auto simp: wilder_gains_def)

lemma wilder_losses_nonneg: "v \<in> set (wilder_losses xs) \<Longrightarrow> 0 \<le> v"
  by (auto simp: wilder_losses_def)

lemma foldl_wilder_update_nonneg:
  assumes "1 \<le> p" and "0 \<le> a" and "\<forall>v\<in>set vs. 0 \<le> v"
  shows "0 \<le> foldl (wilder_update p) a vs"
  using assms(2,3)
proof (induction vs arbitrary: a)
  case Nil
  then show ?case by simp
next
  case (Cons v vs)
  have "0 \<le> wilder_update p a v"
    using assms(1) Cons.prems by (simp add: wilder_update_def)
  then show ?case using Cons by simp
qed

lemma wilder_average_nonneg:
  assumes "1 \<le> p" and "\<forall>v\<in>set vs. 0 \<le> v"
  shows "0 \<le> wilder_average p vs"
proof -
  have "0 \<le> sum_list (take (nat p) vs)"
    using assms(2) by (intro sum_list_nonneg) (auto dest: in_set_takeD)
  then have "0 \<le> mean_list (take (nat p) vs)"
    by (simp add: mean_list_def)
  moreover have "\<forall>v\<in>set (drop (nat p) vs). 0 \<le> v"
    using assms(2) by (auto dest: in_set_dropD)
  ultimately show ?thesis
    unfolding wilder_average_def using assms(1) by (intro foldl_wilder_update_nonneg)
qed

lemma foldl_wilder_update_zero:
  assumes "\<forall>v\<in>set vs. v = 0"
  shows "foldl (wilder_update p) 0 vs = 0"
  using assms by (induction vs) (simp_all add: wilder_update_def)

lemma sum_list_all_zero: "\<forall>v\<in>set vs. v = (0::real) \<Longrightarrow> sum_list vs = 0"
  by (induction vs) simp_all

lemma wilder_average_zero:
  assumes "\<forall>v\<in>set vs. v = 0"
  shows "wilder_average p vs = 0"
proof -
  have "sum_list (take (nat p) vs) = 0"
    using assms by (intro sum_list_all_zero) (auto dest: in_set_takeD)
  then have "mean_list (take (nat p) vs) = 0"
    by (simp add: mean_list_def)
  moreover have "\<forall>v\<in>set (drop (nat p) vs). v = 0"
    using assms by (auto dest: in_set_dropD)
  ultimately show ?thesis
    unfolding wilder_average_def by (simp add: foldl_wilder_update_zero)
qed

lemma wilder_losses_sorted:
  assumes "sorted xs"
  shows "\<forall>v\<in>set (wilder_losses xs). v = 0"
proof
  fix v assume "v \<in> set (wilder_losses xs)"
  then obtain k where k: "k < length (zip xs (tl xs))" and v: "v = max (xs ! k - tl xs ! k) 0"
    by (auto simp: wilder_losses_def in_set_conv_nth)
  from k have "Suc k < length xs" by simp
  then have "xs ! k \<le> xs ! Suc k"
    using assms by (simp add: sorted_iff_nth_mono)
  moreover have "tl xs ! k = xs ! Suc k" using k by (simp add: nth_tl)
  ultimately show "v = 0" using v by simp
qed

lemma compute_rsi_nums:
  assumes "1 \<le> p" and "p + 1 \<le> int (length xs)"
  shows "compute_rsi (map JNum xs) p =
     Inr (Some (if \<bar>wilder_average p (wilder_losses xs)\<bar> < 1 / 10 ^ 12 then 100
                else 100 - 100 / (1 + wilder_average p (wilder_gains xs) / wilder_average p (wilder_losses xs))))"
proof -
  let ?g = "wilder_average p (wilder_gains xs)"
  let ?l = "wilder_average p (wilder_losses xs)"
  have g: "0 \<le> ?g" using assms(1) wilder_gains_nonneg by (intro wilder_average_nonneg) auto
  have l: "0 \<le> ?l" using assms(1) wilder_losses_nonneg by (intro wilder_average_nonneg) auto
  have "0 \<le> ?g / ?l" using g l by simp
  then have "1 + ?g / ?l \<noteq> 0" by linarith
  then show ?thesis
    using assms by (simp add: compute_rsi_def rsi_averages_nums [OF assms] Let_def)
qed

section \<open>Too little history\<close>

text \<open>
  C2. A series with fewer than \<open>period + 1\<close> closes has no reading: \<^verbatim>\<open>compute_rsi\<close>
  returns \<^verbatim>\<open>None\<close>, whatever the entries of the series are.
\<close>

theorem compute_rsi_short_series:
  assumes "2 \<le> period" and "int (length closes) < period + 1"
  shows "compute_rsi closes period = Inr None"
  using assms by (simp add: compute_rsi_def)

text \<open>The seven closes of the specification's scenario, at period 13.\<close>

theorem compute_rsi_short_series_witness:
  "(2::int) \<le> 13
   \<and> int (length [JNum 44, JNum 44.25, JNum 44.5, JNum 43.75, JNum 44.5, JNum 44.0, JNum 44.25]) < 13 + 1
   \<and> compute_rsi [JNum 44, JNum 44.25, JNum 44.5, JNum 43.75, JNum 44.5, JNum 44.0, JNum 44.25] 13
       = Inr None"
  using compute_rsi_short_series
    [of 13 "[JNum 44, JNum 44.25, JNum 44.5, JNum 43.75, JNum 44.5, JNum 44.0, JNum 44.25]"]
  by simp

section \<open>The Wilder algorithm\<close>

text \<open>
  C1. On a series of at least \<open>period + 1\<close> closes, with \<open>period\<close> at least 2, the two
  loops of \<^verbatim>\<open>compute_rsi\<close> end with the averages of the specification's algorithm: the
  means of the first \<open>period\<close> gains and losses, updated once per later delta in order
  by \<open>(avg * (period - 1) + v) / period\<close>. When the average loss is at least \<open>1e-12\<close> in
  magnitude the function returns \<open>100 - 100 / (1 + avgGain / avgLoss)\<close>.
\<close>

theorem compute_rsi_wilder:
  assumes "2 \<le> period" and "period + 1 \<le> int (length xs)"
  shows "rsi_averages (map JNum xs) period =
           Inr (wilder_average period (wilder_gains xs), wilder_average period (wilder_losses xs))
       \<and> (1 / 10 ^ 12 \<le> \<bar>wilder_average period (wilder_losses xs)\<bar> \<longrightarrow>
            compute_rsi (map JNum xs) period =
              Inr (Some (100 - 100 / (1 + wilder_average period (wilder_gains xs)
                                           / wilder_average period (wilder_losses xs)))))"
  using assms by (simp add: rsi_averages_nums compute_rsi_nums)

text \<open>
  The closes 1, 3, 2, 5 at period 2: gains 2, 0, 3 and losses 0, 1, 0; the seeds 1 and
  1/2 become 2 and 1/4, and the reading is \<open>100 - 100 / 9\<close>.
\<close>

theorem compute_rsi_wilder_witness:
  "(2::int) \<le> 2 \<and> (2::int) + 1 \<le> int (length [1, 3, 2, 5::real])
   \<and> rsi_averages (map JNum [1, 3, 2, 5]) 2 = Inr (2, 1 / 4)
   \<and> compute_rsi (map JNum [1, 3, 2, 5]) 2 = Inr (Some (800 / 9))"
  using compute_rsi_wilder [of 2 "[1, 3, 2, 5]"]
  by (simp add: wilder_average_def wilder_gains_def wilder_losses_def mean_list_def
      wilder_update_def)

section \<open>No losses\<close>

text \<open>
  C3. On a series of at least \<open>period + 1\<close> closes, whenever the loops end with an average
  loss below \<open>1e-12\<close> in absolute value, \<^verbatim>\<open>compute_rsi\<close> returns exactly 100. For a period
  of at least 1, which covers the periods of the specification, the loops do end with a
  pair of averages, and on a series that never decreases the average loss is 0, so the
  reading is exactly 100.
\<close>

theorem compute_rsi_no_loss:
  assumes "period + 1 \<le> int (length xs)"
  shows "(\<forall>avg_gain avg_loss.
            rsi_averages (map JNum xs) period = Inr (avg_gain, avg_loss) \<and> \<bar>avg_loss\<bar> < 1 / 10 ^ 12
            \<longrightarrow> compute_rsi (map JNum xs) period = Inr (Some 100))
       \<and> (1 \<le> period \<longrightarrow> (\<exists>avg_gain avg_loss.
              rsi_averages (map JNum xs) period = Inr (avg_gain, avg_loss)))
       \<and> (1 \<le> period \<and> sorted xs \<longrightarrow>
              (\<exists>avg_gain. rsi_averages (map JNum xs) period = Inr (avg_gain, 0))
            \<and> compute_rsi (map JNum xs) period = Inr (Some 100))"
proof -
  let ?g = "wilder_average period (wilder_gains xs)"
  let ?l = "wilder_average period (wilder_losses xs)"
  have small: "compute_rsi (map JNum xs) period = Inr (Some 100)"
    if "rsi_averages (map JNum xs) period = Inr (g, l)" "\<bar>l\<bar> < 1 / 10 ^ 12" for g l
    using that assms by (simp add: compute_rsi_def)
  have avgs: "rsi_averages (map JNum xs) period = Inr (?g, ?l)" if "1 \<le> period"
    using that assms by (rule rsi_averages_nums)
  have zero: "?l = 0" if "sorted xs"
    using that by (intro wilder_average_zero wilder_losses_sorted)
  have mono: "rsi_averages (map JNum xs) period = Inr (?g, 0)
              \<and> compute_rsi (map JNum xs) period = Inr (Some 100)"
    if "1 \<le> period" "sorted xs"
    using avgs [OF that(1)] zero [OF that(2)] small [of ?g 0] by simp
  show ?thesis using small avgs mono by blast
qed

text \<open>The series 1, 2, 2, 7, which never decreases, at period 2.\<close>

theorem compute_rsi_no_loss_witness:
  "(2::int) + 1 \<le> int (length [1, 2, 2, 7::real]) \<and> (1::int) \<le> 2 \<and> sorted [1, 2, 2, 7::real]
   \<and> compute_rsi (map JNum [1, 2, 2, 7]) 2 = Inr (Some 100)"
  using compute_rsi_no_loss [of 2 "[1, 2, 2, 7]"] by auto

section \<open>The range of the reading\<close>

text \<open>
  On finite closes every gain and every loss is a finite number not below zero or plus
  infinity, and the sums, means and updates keep them so.
\<close>

lemma f64_limit_pos: "0 < f64_limit"
proof -
  have "(2::real) ^ 970 < 2 ^ 1024" by (rule power_strict_increasing) simp_all
  then show ?thesis by (simp add: f64_limit_def)
qed

lemma nonneg64_of_real: "0 \<le> x \<Longrightarrow> nonneg64 (f64_of_real x)"
  using f64_limit_pos by (simp add: f64_of_real_def)

lemma nonneg64_cases:
  assumes "nonneg64 x"
  obtains a where "x = Fin a" "0 \<le> a" | "x = PInf"
  using assms by (cases x) auto

lemma gain_nonneg64: "nonneg64 (py_max0 (f64_sub (Fin a) (Fin b)))"
  by (simp add: py_max0_def f64_sub_def f64_of_real_def)

lemma loss_nonneg64: "nonneg64 (f64_abs (py_min0 (f64_sub (Fin a) (Fin b))))"
  using f64_limit_pos by (simp add: py_min0_def f64_sub_def f64_of_real_def)

lemma add_nonneg64: "nonneg64 x \<Longrightarrow> nonneg64 y \<Longrightarrow> nonneg64 (f64_add x y)"
  by (cases x; cases y) (simp_all add: nonneg64_of_real)

lemma mul_nonneg64: "nonneg64 x \<Longrightarrow> 0 < c \<Longrightarrow> nonneg64 (f64_mul x (Fin c))"
  by (cases x) (simp_all add: nonneg64_of_real)

lemma div_nonneg64:
  "nonneg64 x \<Longrightarrow> 0 < c \<Longrightarrow> \<exists>q. f64_div x (Fin c) = Inr q \<and> nonneg64 q"
  by (cases x) (simp_all add: nonneg64_of_real)

lemma sum_nonneg64:
  "nonneg64 acc \<Longrightarrow> list_all nonneg64 vs \<Longrightarrow> nonneg64 (foldl f64_add acc vs)"
  by (induction vs arbitrary: acc) (simp_all add: add_nonneg64)

lemma wilder_step_nonneg64:
  assumes "2 \<le> period" "nonneg64 avg" "nonneg64 v"
  shows "\<exists>q. wilder_step_f64 period avg v = Inr q \<and> nonneg64 q"
proof -
  have "nonneg64 (f64_mul avg (Fin (real_of_int (period - 1))))"
    using assms(1,2) by (intro mul_nonneg64) simp_all
  then have "nonneg64 (f64_add (f64_mul avg (Fin (real_of_int (period - 1)))) v)"
    using assms(3) by (rule add_nonneg64)
  then show ?thesis
    unfolding wilder_step_f64_def using assms(1) by (intro div_nonneg64) simp_all
qed

lemma change_at_f64_fin:
  assumes "1 \<le> i" "i < int (length xs)"
  shows "\<exists>a b. change_at_f64 (map Fin xs) i = Inr (f64_sub (Fin a) (Fin b))"
  using assms by (auto simp: change_at_f64_def py_index_def)

lemma seed_loop_f64_nonneg:
  assumes "\<forall>i\<in>set is. 1 \<le> i \<and> i < int (length xs)"
    and "list_all nonneg64 gains" "list_all nonneg64 losses"
  shows "\<exists>gs ls. seed_loop_f64 (map Fin xs) is gains losses = Inr (gs, ls)
           \<and> list_all nonneg64 gs \<and> list_all nonneg64 ls"
  using assms
proof (induction "is" arbitrary: gains losses)
  case Nil
  then show ?case by simp
next
  case (Cons i "is")
  then obtain a b where c: "change_at_f64 (map Fin xs) i = Inr (f64_sub (Fin a) (Fin b))"
    using change_at_f64_fin [of i xs] by auto
  have "list_all nonneg64 (gains @ [py_max0 (f64_sub (Fin a) (Fin b))])"
    "list_all nonneg64 (losses @ [f64_abs (py_min0 (f64_sub (Fin a) (Fin b)))])"
    using Cons.prems(2,3) by (simp_all add: gain_nonneg64 loss_nonneg64)
  from Cons.IH [OF _ this] Cons.prems(1) show ?case by (simp add: c)
qed

lemma smooth_loop_f64_nonneg:
  assumes "2 \<le> period" and "\<forall>i\<in>set is. 1 \<le> i \<and> i < int (length xs)"
    and "nonneg64 ag" "nonneg64 al"
  shows "\<exists>ag' al'. smooth_loop_f64 (map Fin xs) period is ag al = Inr (ag', al')
           \<and> nonneg64 ag' \<and> nonneg64 al'"
  using assms(2-)
proof (induction "is" arbitrary: ag al)
  case Nil
  then show ?case by simp
next
  case (Cons i "is")
  then obtain a b where c: "change_at_f64 (map Fin xs) i = Inr (f64_sub (Fin a) (Fin b))"
    using change_at_f64_fin [of i xs] by auto
  obtain g where g: "wilder_step_f64 period ag (py_max0 (f64_sub (Fin a) (Fin b))) = Inr g" "nonneg64 g"
    using wilder_step_nonneg64 [OF assms(1) Cons.prems(2) gain_nonneg64] by blast
  obtain l where l: "wilder_step_f64 period al (f64_abs (py_min0 (f64_sub (Fin a) (Fin b)))) = Inr l" "nonneg64 l"
    using wilder_step_nonneg64 [OF assms(1) Cons.prems(3) loss_nonneg64] by blast
  from Cons.IH [OF _ g(2) l(2)] Cons.prems(1) show ?case by (simp add: c g(1) l(1))
qed

lemma rsi_averages_f64_nonneg:
  assumes "2 \<le> period" and "period + 1 \<le> int (length xs)"
  shows "\<exists>ag al. rsi_averages_f64 (map Fin xs) period = Inr (ag, al) \<and> nonneg64 ag \<and> nonneg64 al"
proof -
  have "\<forall>i\<in>set [1..period]. 1 \<le> i \<and> i < int (length xs)"
    using assms(2) by auto
  from seed_loop_f64_nonneg [OF this, of "[]" "[]"]
  obtain gs ls where seed: "seed_loop_f64 (map Fin xs) [1..period] [] [] = Inr (gs, ls)"
    and gs: "list_all nonneg64 gs" and ls: "list_all nonneg64 ls"
    by auto
  have p: "0 < real_of_int period" using assms(1) by simp
  obtain g0 where g0: "f64_div (foldl f64_add (Fin 0) gs) (Fin (real_of_int period)) = Inr g0" "nonneg64 g0"
    using div_nonneg64 [OF sum_nonneg64 [OF _ gs, of "Fin 0"] p] by auto
  obtain l0 where l0: "f64_div (foldl f64_add (Fin 0) ls) (Fin (real_of_int period)) = Inr l0" "nonneg64 l0"
    using div_nonneg64 [OF sum_nonneg64 [OF _ ls, of "Fin 0"] p] by auto
  have "\<forall>i\<in>set [period + 1..int (length xs) - 1]. 1 \<le> i \<and> i < int (length xs)"
    using assms(1) by auto
  from smooth_loop_f64_nonneg [OF assms(1) this g0(2) l0(2)]
  show ?thesis by (simp add: rsi_averages_f64_def seed g0(1) l0(1) del: f64_div.simps)
qed

lemma f64_limit_big: "100 < f64_limit"
  by (simp add: f64_limit_def)

lemma f64_of_real_percent: "0 \<le> x \<Longrightarrow> x \<le> 100 \<Longrightarrow> f64_of_real x = Fin x"
  using f64_limit_big by (simp add: f64_of_real_def)

lemma reading_of_rs:
  assumes "nonneg64 rs"
  shows "\<exists>v. (case f64_div (Fin 100) (f64_add (Fin 1) rs) of
                 Inl e \<Rightarrow> Inl e
               | Inr q \<Rightarrow> Inr (f64_sub (Fin 100) q)) = Inr (Fin v) \<and> 0 \<le> v \<and> v \<le> 100"
proof -
  have inf: ?thesis if "f64_add (Fin 1) rs = PInf"
    using that by (simp add: f64_sub_def f64_of_real_percent)
  from assms show ?thesis
  proof (cases rule: nonneg64_cases)
    case (1 r)
    show ?thesis
    proof (cases "f64_limit \<le> 1 + r")
      case True
      then have "f64_add (Fin 1) rs = PInf" using 1 by (simp add: f64_of_real_def)
      then show ?thesis by (rule inf)
    next
      case False
      then have d: "f64_add (Fin 1) rs = Fin (1 + r)"
        using 1 f64_limit_pos by (simp add: f64_of_real_def)
      have q: "0 \<le> 100 / (1 + r)" "100 / (1 + r) \<le> 100"
        using 1(2) by (simp_all add: divide_le_eq)
      have "1 + r \<noteq> 0" using 1(2) by simp
      then show ?thesis
        using q by (simp add: d f64_sub_def f64_of_real_percent)
    qed
  next
    case 2
    then show ?thesis by (intro inf) simp
  qed
qed

lemma rsi_of_averages_f64_range:
  assumes "nonneg64 ag" "nonneg64 al"
  shows "\<exists>r. rsi_of_averages_f64 ag al = Inr r
           \<and> (if ag = PInf \<and> al = PInf then r = NaN else (\<exists>v. r = Fin v \<and> 0 \<le> v \<and> v \<le> 100))"
proof -
  have fin: ?thesis if rs: "f64_div ag al = Inr rs" "nonneg64 rs" and np: "\<not> (ag = PInf \<and> al = PInf)"
    for rs
  proof (cases "f64_less (f64_abs al) (Fin (1 / 10 ^ 12))")
    case True
    then show ?thesis using np by (simp add: rsi_of_averages_f64_def)
  next
    case False
    then show ?thesis
      using reading_of_rs [OF rs(2)] np
      by (auto simp: rsi_of_averages_f64_def rs(1) simp del: f64_div.simps)
  qed
  from assms(2) show ?thesis
  proof (cases rule: nonneg64_cases)
    case (1 l)
    show ?thesis
    proof (cases "l = 0")
      case True
      then show ?thesis using 1 by (simp add: rsi_of_averages_f64_def)
    next
      case False
      then have "0 < l" using 1(2) by simp
      from div_nonneg64 [OF assms(1) this]
      obtain q where "f64_div ag al = Inr q" "nonneg64 q"
        unfolding 1(1) by blast
      then show ?thesis using 1(1) by (intro fin [of q]) simp_all
    qed
  next
    case 2
    from assms(1) show ?thesis
    proof (cases rule: nonneg64_cases)
      case (1 g)
      then show ?thesis using \<open>al = PInf\<close> by (intro fin [of "Fin 0"]) simp_all
    next
      case 2
      then show ?thesis using \<open>al = PInf\<close>
        by (simp add: rsi_of_averages_f64_def f64_sub_def)
    qed
  qed
qed

text \<open>
  C4, as the code has it. On a series of at least \<open>period + 1\<close> finite closes, with
  \<open>period\<close> at least 2, \<^verbatim>\<open>compute_rsi\<close> raises nothing and returns a value. The value is
  a number between 0 and 100, both included, unless the average gain and the average
  loss have both overflowed to infinity; then it is NaN. It is never negative.
\<close>

theorem compute_rsi_f64_range:
  assumes "2 \<le> period" and "period + 1 \<le> int (length xs)"
  shows "\<exists>avg_gain avg_loss r.
           rsi_averages_f64 (map Fin xs) period = Inr (avg_gain, avg_loss)
         \<and> compute_rsi_f64 (map Fin xs) period = Inr (Some r)
         \<and> (if avg_gain = PInf \<and> avg_loss = PInf then r = NaN
             else (\<exists>v. r = Fin v \<and> 0 \<le> v \<and> v \<le> 100))"
proof -
  from rsi_averages_f64_nonneg [OF assms]
  obtain ag al where avgs: "rsi_averages_f64 (map Fin xs) period = Inr (ag, al)"
    and nn: "nonneg64 ag" "nonneg64 al"
    by blast
  from rsi_of_averages_f64_range [OF nn]
  obtain r where r: "rsi_of_averages_f64 ag al = Inr r"
    "if ag = PInf \<and> al = PInf then r = NaN else (\<exists>v. r = Fin v \<and> 0 \<le> v \<and> v \<le> 100)"
    by blast
  have "compute_rsi_f64 (map Fin xs) period = Inr (Some r)"
    using assms(2) by (simp add: compute_rsi_f64_def avgs r(1))
  then show ?thesis using avgs r(2) by blast
qed

text \<open>The falling series 9, 7, 4, 1, and the series 1, 3, 2, 5, at period 2.\<close>

theorem compute_rsi_f64_range_witness:
  "(2::int) \<le> 2 \<and> (2::int) + 1 \<le> int (length [9, 7, 4, 1::real])
   \<and> compute_rsi_f64 (map Fin [9, 7, 4, 1]) 2 = Inr (Some (Fin 0))
   \<and> compute_rsi_f64 (map Fin [1, 3, 2, 5]) 2 = Inr (Some (Fin (800 / 9)))"
  using compute_rsi_f64_range [of 2 "[9, 7, 4, 1]"]
  by (simp add: compute_rsi_f64_def rsi_averages_f64_def rsi_of_averages_f64_def
      change_at_f64_def py_index_def f64_sub_def f64_of_real_def f64_limit_def py_max0_def
      py_min0_def wilder_step_f64_def upto.simps)

text \<open>
  C4, as stated, fails on the finite closes 0, 1.5e308, 0, 1.5e308, 0 at period 4: the
  two gains and the two losses of 1.5e308 each sum to infinity, the ratio of the
  averages is NaN, and so is the value returned.
\<close>

theorem compute_rsi_f64_overflow:
  "compute_rsi_f64 (map Fin [0, 15 * 10 ^ 307, 0, 15 * 10 ^ 307, 0]) 4 = Inr (Some NaN)"
  by (simp add: compute_rsi_f64_def rsi_averages_f64_def rsi_of_averages_f64_def
      change_at_f64_def py_index_def f64_sub_def f64_of_real_def f64_limit_def py_max0_def
      py_min0_def wilder_step_f64_def upto.simps)

section \<open>Classification\<close>



section \<open>Closing prices\<close>

lemma closes_of_rows_total:
  "closes_of_rows rows =
     Inr (concat (map (\<lambda>row. case row of
                                JArr cells \<Rightarrow> if 5 \<le> length cells then [cells ! 4] else []
                              | _ \<Rightarrow> []) rows))"
  by (induction rows rule: closes_of_rows.induct) (simp_all add: py_index_def)

text \<open>
  C10, as the code has it. For every sequence of rows \<^verbatim>\<open>closes_from_ohlc\<close> raises nothing; it
  skips the rows that are not lists of at least five entries and keeps, in order, the
  fifth entry of every other row, whatever that entry is.
\<close>

theorem closes_from_ohlc_keeps_fifth:
  "closes_from_ohlc (JArr rows) =
     Inr (concat (map (\<lambda>row. case row of
                                JArr cells \<Rightarrow> if 5 \<le> length cells then [cells ! 4] else []
                              | _ \<Rightarrow> []) rows))"
  by (simp add: closes_from_ohlc_def closes_of_rows_total)

text \<open>
  C10, as stated, fails on a row whose close is \<^verbatim>\<open>null\<close>: the row does not parse as a
  candle, yet it is not skipped, and the \<^verbatim>\<open>None\<close> it leaves in the series makes
  \<^verbatim>\<open>compute_rsi\<close> raise, where the series without that row has a reading.
\<close>

theorem closes_from_ohlc_keeps_malformed:
  "\<not> parsable_candle (JArr [JNum 3, JNum 10, JNum 10, JNum 10, JNull])
   \<and> closes_from_ohlc
       (JArr [JArr [JNum 1, JNum 10, JNum 10, JNum 10, JNum 10],
              JArr [JNum 2, JNum 10, JNum 11, JNum 10, JNum 11],
              JArr [JNum 3, JNum 10, JNum 10, JNum 10, JNull],
              JArr [JNum 4, JNum 10, JNum 12, JNum 10, JNum 12]])
     = Inr [JNum 10, JNum 11, JNull, JNum 12]
   \<and> compute_rsi [JNum 10, JNum 11, JNull, JNum 12] 2 = Inl TypeError
   \<and> compute_rsi [JNum 10, JNum 11, JNum 12] 2 = Inr (Some 100)"
  by (simp add: closes_from_ohlc_def py_index_def compute_rsi_def rsi_averages_def
      change_at_def py_sub_def upto.simps)

section \<open>The retry of \<^verbatim>\<open>fetch_ohlc\<close>\<close>

lemma response_json_429: "response_json (Response 429 body) = Inl (HTTPError (Some 429))"
  by (simp add: response_json_def)

text \<open>
  C7. If the first response of a call of \<^verbatim>\<open>fetch_ohlc\<close> has status 429, the call sleeps 5
  seconds once, sends the request a second time, and its result is the result of that
  second request: its payload when it succeeds, its exception otherwise, a second 429
  included. If the first request does not end in a 429 error the call sends nothing more
  and does not sleep; its result is that of the first request, so any other failure goes
  to the caller. No call sends more than two requests or sleeps more than once.
\<close>

theorem fetch_ohlc_single_retry:
  "(\<forall>body. net w (length (sent w)) (OhlcRequest c d) = Response 429 body \<longrightarrow>
        fetch_ohlc c d w =
          (response_json (net w (Suc (length (sent w))) (OhlcRequest c d)),
           w\<lparr>sent := sent w @ [OhlcRequest c d, OhlcRequest c d], slept := slept w @ [5]\<rparr>))
   \<and> (response_json (net w (length (sent w)) (OhlcRequest c d)) \<noteq> Inl (HTTPError (Some 429)) \<longrightarrow>
        fetch_ohlc c d w =
          (response_json (net w (length (sent w)) (OhlcRequest c d)),
           w\<lparr>sent := sent w @ [OhlcRequest c d]\<rparr>))
   \<and> length (sent (snd (fetch_ohlc c d w))) \<le> length (sent w) + 2
   \<and> (slept (snd (fetch_ohlc c d w)) = slept w \<or> slept (snd (fetch_ohlc c d w)) = slept w @ [5])"
proof -
  let ?req = "OhlcRequest c d"
  let ?first = "response_json (net w (length (sent w)) ?req)"
  have once: "fetch_ohlc_once c d v = (response_json (net v (length (sent v)) ?req), v\<lparr>sent := sent v @ [?req]\<rparr>)"
    for v by (simp add: fetch_ohlc_once_def http_get_def)
  have retry: "fetch_ohlc c d w =
      (response_json (net w (Suc (length (sent w))) ?req),
       w\<lparr>sent := sent w @ [?req, ?req], slept := slept w @ [5]\<rparr>)"
    if "?first = Inl (HTTPError (Some 429))"
    using that by (simp add: fetch_ohlc_def once sleep_def)
  have plain: "fetch_ohlc c d w = (?first, w\<lparr>sent := sent w @ [?req]\<rparr>)"
    if "?first \<noteq> Inl (HTTPError (Some 429))"
    using that by (auto simp: fetch_ohlc_def once split: sum.splits exn.splits)
  show ?thesis
  proof (cases "?first = Inl (HTTPError (Some 429))")
    case True
    then show ?thesis using retry by (auto simp: response_json_429)
  next
    case False
    then show ?thesis using plain by (auto simp: response_json_429)
  qed
qed

text \<open>
  The specification's scenario: 429 first, success on the retry. The retried payload
  comes back, after two requests and one sleep of 5 seconds.
\<close>

theorem fetch_ohlc_single_retry_witness:
  "fetch_ohlc (JStr ''bitcoin'') 1 rate_limited_once =
     (Inr (JArr []),
      rate_limited_once
        \<lparr>sent := [OhlcRequest (JStr ''bitcoin'') 1, OhlcRequest (JStr ''bitcoin'') 1],
         slept := [5]\<rparr>)"
  using fetch_ohlc_single_retry [of rate_limited_once "JStr ''bitcoin''" 1]
  by (simp add: rate_limited_once_def response_json_def)

section \<open>The report is sorted\<close>

lemma valued_rows_rsi: "(v, r) \<in> set (valued_rows rows) \<Longrightarrow> row_rsi r = Some v"
  by (auto simp: valued_rows_def split: option.splits)

lemma mset_valued_rows:
  "mset (map snd (valued_rows rows)) + mset (filter (\<lambda>r. row_rsi r = None) rows) = mset rows"
  by (induction rows) (auto simp: valued_rows_def split: option.splits)

lemma sorted_wrt_all_none:
  "\<forall>r\<in>set xs. row_rsi r = None \<Longrightarrow> sorted_wrt (\<lambda>r s. rsi_le (row_rsi r) (row_rsi s)) xs"
  by (induction xs) simp_all

lemma sort_values_rsi_ordered:
  assumes "sort_values_rsi rows = Inr df"
  shows "sorted_wrt (\<lambda>r s. rsi_le (row_rsi r) (row_rsi s)) df" and "mset df = mset rows"
proof -
  let ?vs = "sort_key fst (valued_rows rows)"
  let ?nones = "filter (\<lambda>r. row_rsi r = None) rows"
  have df: "df = map snd ?vs @ ?nones"
    using assms by (simp add: sort_values_rsi_def split: if_splits)
  have key: "row_rsi (snd p) = Some (fst p)" if "p \<in> set ?vs" for p
    using that valued_rows_rsi [of "fst p" "snd p" rows] by simp
  have "sorted (map fst ?vs)" by (rule sorted_sort_key)
  then have "sorted_wrt (\<lambda>p q. fst p \<le> fst q) ?vs"
    by (simp add: sorted_map)
  then have "sorted_wrt (\<lambda>p q. rsi_le (row_rsi (snd p)) (row_rsi (snd q))) ?vs"
    by (rule sorted_wrt_mono_rel [rotated]) (simp add: key)
  then have vals: "sorted_wrt (\<lambda>r s. rsi_le (row_rsi r) (row_rsi s)) (map snd ?vs)"
    by (simp add: sorted_wrt_map)
  have nones: "sorted_wrt (\<lambda>r s. rsi_le (row_rsi r) (row_rsi s)) ?nones"
    by (rule sorted_wrt_all_none) simp
  show "sorted_wrt (\<lambda>r s. rsi_le (row_rsi r) (row_rsi s)) df"
    unfolding df by (auto simp: sorted_wrt_append vals nones)
  have "mset (map snd ?vs) = mset (map snd (valued_rows rows))"
    by simp
  then show "mset df = mset rows"
    unfolding df using mset_valued_rows [of rows] by simp
qed

text \<open>
  C8. Whenever the cycle produces a report, its rows are in ascending order of the
  reading they record (the value rounded to two decimals that the row holds), and every
  row without a reading comes after every row with one. The sort keeps the rows: it
  permutes them, and it succeeds on every non-empty list of rows, however many readings
  are defined.
\<close>

theorem report_ordered:
  "(\<forall>df alerts w'. build_report fetch period low high coins w = (Inr (df, alerts), w') \<longrightarrow>
       sorted_wrt (\<lambda>r s. rsi_le (row_rsi r) (row_rsi s)) df)
   \<and> (\<forall>df. sort_values_rsi rows = Inr df \<longrightarrow>
         sorted_wrt (\<lambda>r s. rsi_le (row_rsi r) (row_rsi s)) df \<and> mset df = mset rows)
   \<and> (rows \<noteq> [] \<longrightarrow> (\<exists>df. sort_values_rsi rows = Inr df))"
proof -
  have "sorted_wrt (\<lambda>r s. rsi_le (row_rsi r) (row_rsi s)) df"
    if "build_report fetch period low high coins w = (Inr (df, alerts), w')" for df alerts w'
  proof -
    from that obtain rs where "sort_values_rsi rs = Inr df"
      by (auto simp: build_report_def split: prod.splits sum.splits)
    then show ?thesis by (rule sort_values_rsi_ordered)
  qed
  moreover have "\<exists>df. sort_values_rsi rows = Inr df" if "rows \<noteq> []"
    using that by (simp add: sort_values_rsi_def)
  ultimately show ?thesis
    using sort_values_rsi_ordered [of rows] by blast
qed

text \<open>The example cycle, and three rows of which the first has no reading.\<close>

theorem report_ordered_witness:
  "(case build_report fetch_ohlc 2 25 75 example_coins example_world of
      (Inr (df, alerts), w') \<Rightarrow>
         map row_rsi df = [Some 0, Some 100, None]
       \<and> sorted_wrt (\<lambda>r s. rsi_le (row_rsi r) (row_rsi s)) df
    | (Inl e, w') \<Rightarrow> False)
   \<and> sort_values_rsi
        [\<lparr>row_name = JStr ''a'', row_symbol = ''A'', row_price = JNull, row_rsi = None\<rparr>,
         \<lparr>row_name = JStr ''b'', row_symbol = ''B'', row_price = JNull, row_rsi = Some 70\<rparr>,
         \<lparr>row_name = JStr ''c'', row_symbol = ''C'', row_price = JNull, row_rsi = Some 30\<rparr>]
      = Inr
        [\<lparr>row_name = JStr ''c'', row_symbol = ''C'', row_price = JNull, row_rsi = Some 30\<rparr>,
         \<lparr>row_name = JStr ''b'', row_symbol = ''B'', row_price = JNull, row_rsi = Some 70\<rparr>,
         \<lparr>row_name = JStr ''a'', row_symbol = ''A'', row_price = JNull, row_rsi = None\<rparr>]"
  using report_ordered [of fetch_ohlc 2 25 75 example_coins example_world
      "[\<lparr>row_name = JStr ''a'', row_symbol = ''A'', row_price = JNull, row_rsi = None\<rparr>,
        \<lparr>row_name = JStr ''b'', row_symbol = ''B'', row_price = JNull, row_rsi = Some 70\<rparr>,
        \<lparr>row_name = JStr ''c'', row_symbol = ''C'', row_price = JNull, row_rsi = Some 30\<rparr>]"]
  by (simp add: build_report_def process_coin_def dict_get_def py_upper_def coin_rsi_def
      fetch_ohlc_def fetch_ohlc_once_def http_get_def response_json_def example_world_def
      example_coins_def candles_def closes_from_ohlc_def py_index_def compute_rsi_def
      rsi_averages_def change_at_def py_sub_def upto.simps sort_values_rsi_def valued_rows_def
      alert_due_def py_round2_def round_half_even_def sleep_def)

section \<open>One asset's failure stays with that asset\<close>

lemma process_coin_ok:
  assumes "asset_object c"
  shows "\<exists>row new coin_id.
           dict_get c ''id'' JNull = Inr coin_id
         \<and> process_coin fetch period low high c w = (Inr (row, new), snd (coin_rsi fetch period coin_id w))
         \<and> row_rsi row = map_option py_round2 (fst (coin_rsi fetch period coin_id w))"
proof (cases c)
  case (JObj kvs)
  then show ?thesis
    using assms
    by (auto simp: process_coin_def dict_get_def py_upper_def split: option.splits json.splits prod.splits)
qed (use assms in simp_all)

lemma main_loop_acc_world:
  "snd (main_loop fetch period low high cs rows alerts w) = snd (main_loop fetch period low high cs [] [] w)"
proof (induction cs arbitrary: rows alerts w)
  case Nil
  then show ?case by simp
next
  case (Cons c cs)
  show ?case
  proof (cases "process_coin fetch period low high c w")
    case (Pair res w1)
    show ?thesis
    proof (cases res)
      case (Inl e)
      then show ?thesis using Pair by simp
    next
      case (Inr ra)
      obtain row new where "ra = (row, new)" by (cases ra)
      then show ?thesis
        using Pair Inr Cons.IH [of "rows @ [row]" "alerts @ new" w1] Cons.IH [of "[row]" new w1]
        by simp
    qed
  qed
qed

lemma main_loop_rows:
  assumes "\<forall>c\<in>set coins. asset_object c"
  shows "\<exists>new_rows new_alerts w'.
           main_loop fetch period low high coins rows alerts w
             = (Inr (rows @ new_rows, alerts @ new_alerts), w')
         \<and> length new_rows = length coins
         \<and> (\<forall>i<length coins. \<exists>coin_id.
               dict_get (coins ! i) ''id'' JNull = Inr coin_id
             \<and> row_rsi (new_rows ! i) =
                 map_option py_round2
                   (fst (coin_rsi fetch period coin_id (world_before fetch period low high coins i w))))"
  using assms
proof (induction coins arbitrary: rows alerts w)
  case Nil
  then show ?case by simp
next
  case (Cons c cs)
  from Cons.prems have "asset_object c" by simp
  from process_coin_ok [OF this, of fetch period low high w]
  obtain row new coin_id where
    cid: "dict_get c ''id'' JNull = Inr coin_id" and
    pc: "process_coin fetch period low high c w = (Inr (row, new), snd (coin_rsi fetch period coin_id w))" and
    rr: "row_rsi row = map_option py_round2 (fst (coin_rsi fetch period coin_id w))"
    by blast
  let ?w1 = "snd (coin_rsi fetch period coin_id w)"
  from Cons.prems have "\<forall>c\<in>set cs. asset_object c" by simp
  from Cons.IH [OF this, of "rows @ [row]" "alerts @ new" ?w1]
  obtain new_rows new_alerts w' where
    ml: "main_loop fetch period low high cs (rows @ [row]) (alerts @ new) ?w1
           = (Inr ((rows @ [row]) @ new_rows, (alerts @ new) @ new_alerts), w')" and
    len: "length new_rows = length cs" and
    each: "\<forall>i<length cs. \<exists>coin_id.
               dict_get (cs ! i) ''id'' JNull = Inr coin_id
             \<and> row_rsi (new_rows ! i) =
                 map_option py_round2
                   (fst (coin_rsi fetch period coin_id (world_before fetch period low high cs i ?w1)))"
    by blast
  have wb0: "world_before fetch period low high (c # cs) 0 w = w"
    by (simp add: world_before_def)
  have wbS: "world_before fetch period low high (c # cs) (Suc j) w
               = world_before fetch period low high cs j ?w1" for j
    using main_loop_acc_world [of fetch period low high "take j cs" "[row]" new ?w1]
    by (simp add: world_before_def pc)
  have "main_loop fetch period low high (c # cs) rows alerts w
          = (Inr (rows @ (row # new_rows), alerts @ (new @ new_alerts)), w')"
    using pc ml by simp
  moreover have "length (row # new_rows) = length (c # cs)" using len by simp
  moreover have "\<forall>i<length (c # cs). \<exists>coin_id.
               dict_get ((c # cs) ! i) ''id'' JNull = Inr coin_id
             \<and> row_rsi ((row # new_rows) ! i) =
                 map_option py_round2
                   (fst (coin_rsi fetch period coin_id (world_before fetch period low high (c # cs) i w)))"
  proof (intro allI impI)
    fix i assume "i < length (c # cs)"
    show "\<exists>coin_id. dict_get ((c # cs) ! i) ''id'' JNull = Inr coin_id
             \<and> row_rsi ((row # new_rows) ! i) =
                 map_option py_round2
                   (fst (coin_rsi fetch period coin_id (world_before fetch period low high (c # cs) i w)))"
    proof (cases i)
      case 0
      then show ?thesis using cid rr wb0 by simp
    next
      case (Suc j)
      then have "j < length cs" using \<open>i < length (c # cs)\<close> by simp
      then show ?thesis using each Suc wbS by simp
    qed
  qed
  ultimately show ?case by blast
qed

text \<open>
  C6. For a non-empty list of assets and any fetcher, the loop raises nothing and the
  report has one row per asset, whatever the fetches do. The row of an asset whose candle
  fetch raises, whose candles cannot be read, or whose indicator computation raises
  records no reading; the loop goes on to the next asset in every case.
\<close>

theorem cycle_isolates_failures:
  assumes "coins \<noteq> []" and "\<forall>c\<in>set coins. asset_object c"
  shows "\<exists>rows df alerts w'.
      main_loop fetch period low high coins [] [] w = (Inr (rows, alerts), w')
    \<and> build_report fetch period low high coins w = (Inr (df, alerts), w')
    \<and> length rows = length coins \<and> mset df = mset rows \<and> length df = length coins
    \<and> (\<forall>i<length coins. \<forall>coin_id.
          dict_get (coins ! i) ''id'' JNull = Inr coin_id \<longrightarrow>
            (\<forall>e w1. fetch coin_id 1 (world_before fetch period low high coins i w) = (Inl e, w1)
               \<longrightarrow> row_rsi (rows ! i) = None)
          \<and> (\<forall>ohlc e w1. fetch coin_id 1 (world_before fetch period low high coins i w) = (Inr ohlc, w1)
                 \<and> closes_from_ohlc ohlc = Inl e
               \<longrightarrow> row_rsi (rows ! i) = None)
          \<and> (\<forall>ohlc closes e w1.
                 fetch coin_id 1 (world_before fetch period low high coins i w) = (Inr ohlc, w1)
                 \<and> closes_from_ohlc ohlc = Inr closes \<and> compute_rsi closes period = Inl e
               \<longrightarrow> row_rsi (rows ! i) = None))"
proof -
  from main_loop_rows [OF assms(2), of fetch period low high "[]" "[]" w]
  obtain rows alerts w' where
    ml: "main_loop fetch period low high coins [] [] w = (Inr (rows, alerts), w')" and
    len: "length rows = length coins" and
    each: "\<forall>i<length coins. \<exists>coin_id.
             dict_get (coins ! i) ''id'' JNull = Inr coin_id
           \<and> row_rsi (rows ! i) =
               map_option py_round2
                 (fst (coin_rsi fetch period coin_id (world_before fetch period low high coins i w)))"
    by auto
  have "rows \<noteq> []" using len assms(1) by auto
  then obtain df where df: "sort_values_rsi rows = Inr df"
    by (simp add: sort_values_rsi_def)
  then have perm: "mset df = mset rows" by (rule sort_values_rsi_ordered)
  have dflen: "length df = length coins" using mset_eq_length [OF perm] len by simp
  have br: "build_report fetch period low high coins w = (Inr (df, alerts), w')"
    by (simp add: build_report_def ml df)
  have none: "row_rsi (rows ! i) = None"
    if "i < length coins" "dict_get (coins ! i) ''id'' JNull = Inr coin_id"
       "fst (coin_rsi fetch period coin_id (world_before fetch period low high coins i w)) = None"
    for i coin_id
    using each that by auto
  have a: "row_rsi (rows ! i) = None"
    if "i < length coins" "dict_get (coins ! i) ''id'' JNull = Inr coin_id"
       "fetch coin_id 1 (world_before fetch period low high coins i w) = (Inl e, w1)"
    for i coin_id e w1
    using none [OF that(1,2)] that(3) by (simp add: coin_rsi_def)
  have b: "row_rsi (rows ! i) = None"
    if "i < length coins" "dict_get (coins ! i) ''id'' JNull = Inr coin_id"
       "fetch coin_id 1 (world_before fetch period low high coins i w) = (Inr ohlc, w1)"
       "closes_from_ohlc ohlc = Inl e"
    for i coin_id ohlc e w1
    using none [OF that(1,2)] that(3,4) by (simp add: coin_rsi_def)
  have c: "row_rsi (rows ! i) = None"
    if "i < length coins" "dict_get (coins ! i) ''id'' JNull = Inr coin_id"
       "fetch coin_id 1 (world_before fetch period low high coins i w) = (Inr ohlc, w1)"
       "closes_from_ohlc ohlc = Inr closes" "compute_rsi closes period = Inl e"
    for i coin_id ohlc closes e w1
    using none [OF that(1,2)] that(3,4,5) by (simp add: coin_rsi_def)
  show ?thesis
    apply (rule exI [of _ rows], rule exI [of _ df], rule exI [of _ alerts], rule exI [of _ w'])
    using ml br len perm dflen a b c by blast
qed

text \<open>
  The example cycle: the fetch for the second coin fails with status 500; the report has
  the three rows, the failed coin last and without a reading.
\<close>

theorem cycle_isolates_failures_witness:
  "example_coins \<noteq> [] \<and> list_all asset_object example_coins
   \<and> fst (fetch_ohlc (JStr ''eth'') 1 (world_before fetch_ohlc 2 25 75 example_coins 1 example_world))
       = Inl (HTTPError (Some 500))
   \<and> (case build_report fetch_ohlc 2 25 75 example_coins example_world of
         (Inr (df, alerts), w') \<Rightarrow>
            map row_name df = [JStr ''Dogecoin'', JStr ''Bitcoin'', JStr ''eth'']
          \<and> map row_rsi df = [Some 0, Some 100, None]
       | (Inl e, w') \<Rightarrow> False)"
  using cycle_isolates_failures [of example_coins fetch_ohlc 2 25 75 example_world]
  by (simp add: build_report_def process_coin_def dict_get_def py_upper_def coin_rsi_def
      fetch_ohlc_def fetch_ohlc_once_def http_get_def response_json_def example_world_def
      example_coins_def candles_def closes_from_ohlc_def py_index_def compute_rsi_def
      rsi_averages_def change_at_def py_sub_def upto.simps sort_values_rsi_def valued_rows_def
      alert_due_def py_round2_def round_half_even_def sleep_def world_before_def)

section \<open>The paging of \<^verbatim>\<open>fetch_top_coins\<close>\<close>

lemma top_coins_loop_step:
  assumes "1 \<le> pp"
  shows "top_coins_loop n pp results pg w =
     (if int (length results) < n then
        (case answer_rows (net w (length (sent w)) (MarketsRequest pp pg)) of
           Inl e \<Rightarrow> (Inl e, w\<lparr>sent := sent w @ [MarketsRequest pp pg]\<rparr>)
         | Inr rows \<Rightarrow>
             if int (length rows) < pp
             then (Inr (results @ rows), w\<lparr>sent := sent w @ [MarketsRequest pp pg]\<rparr>)
             else top_coins_loop n pp (results @ rows) (pg + 1)
                    (w\<lparr>sent := sent w @ [MarketsRequest pp pg]\<rparr>))
      else (Inr results, w))"
  using assms
  by (subst top_coins_loop.simps)
    (auto simp: http_get_def answer_rows_def batch_rows_def split: sum.splits)

lemma top_coins_loop_trace:
  assumes "1 \<le> pp" and "top_coins_loop n pp results pg w = (res, w')"
  shows "\<exists>m. sent w' = sent w @ map (\<lambda>k. MarketsRequest pp (pg + int k)) [0..<m]
           \<and> slept w' = slept w \<and> net w' = net w
           \<and> (\<forall>k<m. \<forall>e. page_answer w pp pg k = Inl e \<longrightarrow> res = Inl e)
           \<and> (\<forall>out. res = Inr out \<longrightarrow>
                 (\<exists>pages. length pages = m
                    \<and> (\<forall>k<m. page_answer w pp pg k = Inr (pages ! k))
                    \<and> accumulates n pp (length results) pages
                    \<and> out = results @ concat pages))"
  using assms(2)
proof (induction "nat (n - int (length results))" arbitrary: results pg w rule: less_induct)
  case less
  let ?req = "MarketsRequest pp pg"
  let ?w1 = "w\<lparr>sent := sent w @ [?req]\<rparr>"
  let ?ans = "answer_rows (net w (length (sent w)) ?req)"
  have ans0: "page_answer w pp pg 0 = ?ans" by (simp add: page_answer_def)
  note step = top_coins_loop_step [OF assms(1), of n results pg w]
  show ?case
  proof (cases "int (length results) < n")
    case False
    then have "res = Inr results" "w' = w" using less.prems step by simp_all
    then show ?thesis using False by (intro exI [of _ 0]) simp
  next
    case more: True
    show ?thesis
    proof (cases ?ans)
      case (Inl e)
      then have "res = Inl e" "w' = ?w1" using less.prems step more by simp_all
      then show ?thesis using Inl ans0 by (intro exI [of _ 1]) simp
    next
      case (Inr rows)
      show ?thesis
      proof (cases "int (length rows) < pp")
        case True
        then have "res = Inr (results @ rows)" "w' = ?w1"
          using less.prems step more Inr by simp_all
        then show ?thesis
          using Inr ans0 more True
          by (intro exI [of _ 1]) (auto intro!: exI [of _ "[rows]"])
      next
        case False
        then have rec: "top_coins_loop n pp (results @ rows) (pg + 1) ?w1 = (res, w')"
          using less.prems step more Inr by simp
        have "rows \<noteq> []" using False assms(1) by auto
        then have "nat (n - int (length (results @ rows))) < nat (n - int (length results))"
          using more by (cases rows) simp_all
        from less.hyps [OF this rec]
        obtain m where
          snt: "sent w' = sent ?w1 @ map (\<lambda>k. MarketsRequest pp (pg + 1 + int k)) [0..<m]" and
          slp: "slept w' = slept ?w1" and nt: "net w' = net ?w1" and
          err: "\<forall>k<m. \<forall>e. page_answer ?w1 pp (pg + 1) k = Inl e \<longrightarrow> res = Inl e" and
          ok: "\<forall>out. res = Inr out \<longrightarrow>
                 (\<exists>pages. length pages = m
                    \<and> (\<forall>k<m. page_answer ?w1 pp (pg + 1) k = Inr (pages ! k))
                    \<and> accumulates n pp (length (results @ rows)) pages
                    \<and> out = (results @ rows) @ concat pages)"
          by blast
        have shift: "page_answer ?w1 pp (pg + 1) k = page_answer w pp pg (Suc k)" for k
          by (simp add: page_answer_def add.commute add.left_commute)
        have "sent w' = sent w @ map (\<lambda>k. MarketsRequest pp (pg + int k)) [0..<Suc m]"
          unfolding snt map_upt_Suc by (simp add: add.commute add.left_commute)
        moreover have "slept w' = slept w" "net w' = net w" using slp nt by simp_all
        moreover have "\<forall>k<Suc m. \<forall>e. page_answer w pp pg k = Inl e \<longrightarrow> res = Inl e"
        proof (intro allI impI)
          fix k e assume "k < Suc m" "page_answer w pp pg k = Inl e"
          then show "res = Inl e"
            using err shift ans0 Inr by (cases k) auto
        qed
        moreover have "\<exists>pages. length pages = Suc m
                    \<and> (\<forall>k<Suc m. page_answer w pp pg k = Inr (pages ! k))
                    \<and> accumulates n pp (length results) pages
                    \<and> out = results @ concat pages" if "res = Inr out" for out
        proof -
          from ok that obtain pages where
            p: "length pages = m" "\<forall>k<m. page_answer ?w1 pp (pg + 1) k = Inr (pages ! k)"
               "accumulates n pp (length (results @ rows)) pages"
               "out = (results @ rows) @ concat pages"
            by blast
          have "\<forall>k<Suc m. page_answer w pp pg k = Inr ((rows # pages) ! k)"
          proof (intro allI impI)
            fix k assume "k < Suc m"
            then show "page_answer w pp pg k = Inr ((rows # pages) ! k)"
              using p(2) shift ans0 Inr by (cases k) auto
          qed
          moreover have "accumulates n pp (length results) (rows # pages)"
            using p(3) more False by simp
          ultimately show ?thesis
            using p(1,4) by (intro exI [of _ "rows # pages"]) simp
        qed
        ultimately show ?thesis by blast
      qed
    qed
  qed
qed

lemma length_py_slice_to: "0 \<le> n \<Longrightarrow> int (length (py_slice_to xs n)) \<le> n"
  by (simp add: py_slice_to_def)

lemma answer_rows_error_status:
  "400 \<le> st \<Longrightarrow> st < 600 \<Longrightarrow> answer_rows (Response st body) = Inl (HTTPError (Some st))"
  by (simp add: answer_rows_def response_json_def)

text \<open>
  C9. A call of \<^verbatim>\<open>fetch_top_coins\<close> with limit \<open>n\<close> sends markets requests for the pages
  1, 2, and so on, each at page size \<open>min 250 n\<close>, and never sleeps. If the answer to any
  request it sends is an exception, in particular a response whose status
  \<^verbatim>\<open>raise_for_status\<close> rejects (400 to 599), the call ends in that exception and returns
  no rows. If it returns, the pages were accumulated until \<open>n\<close> rows were collected or a
  page came back with fewer rows than asked for, and the result is the first \<open>n\<close> rows of
  the pages in order: at most \<open>n\<close> rows for a limit that is not negative.
\<close>

theorem fetch_top_coins_pages:
  assumes "fetch_top_coins n w = (res, w')"
  shows "\<exists>m. sent w' = sent w @ map (\<lambda>k. MarketsRequest (min 250 n) (1 + int k)) [0..<m]
           \<and> slept w' = slept w
           \<and> (\<forall>k<m. \<forall>e. page_answer w (min 250 n) 1 k = Inl e \<longrightarrow> res = Inl e)
           \<and> (\<forall>k<m. \<forall>st body.
                 net w (length (sent w) + k) (MarketsRequest (min 250 n) (1 + int k)) = Response st body
                 \<and> 400 \<le> st \<and> st < 600 \<longrightarrow> res = Inl (HTTPError (Some st)))
           \<and> (\<forall>out. res = Inr out \<longrightarrow>
                 (\<exists>pages. length pages = m
                    \<and> (\<forall>k<m. page_answer w (min 250 n) 1 k = Inr (pages ! k))
                    \<and> accumulates n (min 250 n) 0 pages
                    \<and> out = py_slice_to (concat pages) n
                    \<and> (0 \<le> n \<longrightarrow> int (length out) \<le> n)))"
proof (cases "1 \<le> n")
  case False
  then have "top_coins_loop n (min 250 n) [] 1 w = (Inr [], w)"
    by (subst top_coins_loop.simps) simp
  moreover have "py_slice_to ([] :: json list) n = []"
    by (simp add: py_slice_to_def)
  ultimately have "res = Inr []" "w' = w"
    using assms by (auto simp: fetch_top_coins_def)
  then show ?thesis
    using False by (intro exI [of _ 0]) (simp add: py_slice_to_def)
next
  case True
  let ?pp = "min 250 n"
  have pp: "1 \<le> ?pp" using True by simp
  obtain res0 w0 where loop: "top_coins_loop n ?pp [] 1 w = (res0, w0)"
    by (cases "top_coins_loop n ?pp [] 1 w")
  have w0: "w0 = w'" and res: "res = (case res0 of Inl e \<Rightarrow> Inl e | Inr rs \<Rightarrow> Inr (py_slice_to rs n))"
    using assms loop by (auto simp: fetch_top_coins_def split: sum.splits)
  from top_coins_loop_trace [OF pp loop]
  obtain m where
    snt: "sent w0 = sent w @ map (\<lambda>k. MarketsRequest ?pp (1 + int k)) [0..<m]" and
    slp: "slept w0 = slept w" and
    err: "\<forall>k<m. \<forall>e. page_answer w ?pp 1 k = Inl e \<longrightarrow> res0 = Inl e" and
    ok: "\<forall>out. res0 = Inr out \<longrightarrow>
           (\<exists>pages. length pages = m
              \<and> (\<forall>k<m. page_answer w ?pp 1 k = Inr (pages ! k))
              \<and> accumulates n ?pp (length ([] :: json list)) pages
              \<and> out = [] @ concat pages)"
    by blast
  have e1: "\<forall>k<m. \<forall>e. page_answer w ?pp 1 k = Inl e \<longrightarrow> res = Inl e"
    using err res by auto
  have e2: "\<forall>k<m. \<forall>st body.
              net w (length (sent w) + k) (MarketsRequest ?pp (1 + int k)) = Response st body
              \<and> 400 \<le> st \<and> st < 600 \<longrightarrow> res = Inl (HTTPError (Some st))"
    using e1 by (auto simp: page_answer_def answer_rows_error_status)
  have good: "\<exists>pages. length pages = m
                \<and> (\<forall>k<m. page_answer w ?pp 1 k = Inr (pages ! k))
                \<and> accumulates n ?pp 0 pages
                \<and> out = py_slice_to (concat pages) n
                \<and> (0 \<le> n \<longrightarrow> int (length out) \<le> n)" if "res = Inr out" for out
  proof -
    from that res obtain rs where rs: "res0 = Inr rs" "out = py_slice_to rs n"
      by (cases res0) auto
    with ok obtain pages where
      "length pages = m" "\<forall>k<m. page_answer w ?pp 1 k = Inr (pages ! k)"
      "accumulates n ?pp 0 pages" "rs = concat pages"
      by auto
    then show ?thesis using rs(2) length_py_slice_to [of n rs] by auto
  qed
  show ?thesis
    apply (rule exI [of _ m])
    using snt slp e1 e2 good w0 by blast
qed

text \<open>
  Three runs: the example cycle's single page of three coins; a limit of 300 served by
  pages of 250 rows, which takes two requests and returns 300 rows; and a first answer
  of status 429, which ends the call.
\<close>

theorem fetch_top_coins_pages_witness:
  "fetch_top_coins 3 example_world = (Inr example_coins, example_world\<lparr>sent := [MarketsRequest 3 1]\<rparr>)
   \<and> fetch_top_coins 300 full_pages =
       (Inr (replicate 250 (JNum 0) @ replicate 50 (JNum 1)),
        full_pages\<lparr>sent := [MarketsRequest 250 1, MarketsRequest 250 2]\<rparr>)
   \<and> fetch_top_coins 10 rate_limited_once =
       (Inl (HTTPError (Some 429)), rate_limited_once\<lparr>sent := [MarketsRequest 10 1]\<rparr>)"
  using fetch_top_coins_pages [of 3 example_world "Inr example_coins"
      "example_world\<lparr>sent := [MarketsRequest 3 1]\<rparr>"]
  by (simp add: fetch_top_coins_def top_coins_loop.simps http_get_def response_json_def
      example_world_def example_coins_def full_pages_def rate_limited_once_def py_slice_to_def)

end
